theory Spec2Isabelle
  imports Main "HOL-Library.AList"
begin

section \<open>Constants of the queue\<close>

text \<open>
  The enumerations of \<^verbatim>\<open>helpers/constants\<close>. The engine only compares their members, so
  each becomes a datatype; the persistence layer also prints the members of
  \<^verbatim>\<open>QUEUIFY_JOB_STATUS\<close> into keys, as the texts given below.
\<close>

datatype QUEUIFY_JOB_STATUS = PENDING | RUNNING | STALLED | COMPLETED | FAILED

datatype WORKER_STATUS = IDLE | BUSY

datatype WORKER_TYPES = SANDBOX | EMBEDDED

datatype ENTITIES = QUEUE

text \<open>
  The errors the code raises or is answered with: the message handed to
  \<^verbatim>\<open>checkExisting\<close> (\<^verbatim>\<open>ALREADY_EXISTS(ENTITIES.QUEUE, queueName)\<close>), a plain
  \<^verbatim>\<open>new Error(text)\<close>, the error reply of the enqueue script with its message
  (\<^verbatim>\<open>redis.error_reply\<close>), the error reply of the store to a command on a key that holds
  the other kind of value, and the \<^verbatim>\<open>TypeError\<close> of a destructuring of \<^verbatim>\<open>undefined\<close>.
\<close>

datatype error =
    ALREADY_EXISTS ENTITIES string
  | Error string
  | ReplyError string
  | WRONGTYPE
  | TypeError

section \<open>The store\<close>

text \<open>
  What \<^verbatim>\<open>db.ts\<close> keeps in Redis. Every key it builds is the key of the queue's runs
  followed by a colon and a text: the id of a job for the hash of that job, with the
  fields of \<^verbatim>\<open>QUEUIFY_JOB_FIELDS\<close>, and the value of a status for the list of the ids in
  that status (\<^verbatim>\<open>${queuifyKey}:${jobId}\<close> and \<^verbatim>\<open>${queuifyKey}:${status}\<close>). The pair
  (queue name, text) stands for such a key, following the key layout, so the hash of a job
  whose id is the value of a status and the list of that status are one key. A key holds
  a hash or a list; a field that was never written reads as \<open>None\<close> (Redis returns nil).
\<close>

record job_hash =
  JOB_ID :: "string option"
  DATA :: "string option"
  STATUS :: "QUEUIFY_JOB_STATUS option"
  FAILED_REASON :: "string option"

datatype entry = Hash job_hash | Ids "string list"

record redis =
  entries :: "string \<times> string \<Rightarrow> entry option"

definition no_fields :: job_hash where
  "no_fields = \<lparr>JOB_ID = None, DATA = None, STATUS = None, FAILED_REASON = None\<rparr>"

definition no_keys :: redis where
  "no_keys = \<lparr>entries = (\<lambda>k. None)\<rparr>"

text \<open>What the statements read of a store: the hash under a key, if the key holds one,
  and the list under a key, empty when the key is absent or holds a hash.\<close>

definition hashes :: "redis \<Rightarrow> string \<times> string \<Rightarrow> job_hash option" where
  "hashes db k =
     (case entries db k of
        None \<Rightarrow> None
      | Some (Hash h) \<Rightarrow> Some h
      | Some (Ids xs) \<Rightarrow> None)"

definition the_list :: "redis \<Rightarrow> string \<times> string \<Rightarrow> string list" where
  "the_list db k =
     (case entries db k of
        None \<Rightarrow> []
      | Some (Hash h) \<Rightarrow> []
      | Some (Ids xs) \<Rightarrow> xs)"

subsection \<open>The commands used\<close>

text \<open>
  A command on a key that holds the other kind of value is answered with the error
  \<^verbatim>\<open>WRONGTYPE\<close> and changes nothing. A list command reads an absent key as the empty
  list, and a list that becomes empty is removed with its key.
\<close>

definition list_at :: "redis \<Rightarrow> string \<times> string \<Rightarrow> error + string list" where
  "list_at db k =
     (case entries db k of
        None \<Rightarrow> Inr []
      | Some (Hash h) \<Rightarrow> Inl WRONGTYPE
      | Some (Ids xs) \<Rightarrow> Inr xs)"

definition put_list :: "redis \<Rightarrow> string \<times> string \<Rightarrow> string list \<Rightarrow> redis" where
  "put_list db k xs = db\<lparr>entries := (entries db)(k := if xs = [] then None else Some (Ids xs))\<rparr>"

text \<open>\<^verbatim>\<open>EXISTS key\<close>: whether the key holds a value, of either kind.\<close>

definition exists_cmd :: "redis \<Rightarrow> string \<times> string \<Rightarrow> bool" where
  "exists_cmd db k = (case entries db k of None \<Rightarrow> False | Some e \<Rightarrow> True)"

text \<open>\<^verbatim>\<open>HSET key field value ...\<close>: writes the given fields, creating the hash when the
  key is absent. The fields written are given as an update of the hash.\<close>

definition hset ::
  "redis \<Rightarrow> string \<times> string \<Rightarrow> (job_hash \<Rightarrow> job_hash) \<Rightarrow> (error + unit) \<times> redis" where
  "hset db k upd =
     (case entries db k of
        None \<Rightarrow> (Inr (), db\<lparr>entries := (entries db)(k := Some (Hash (upd no_fields)))\<rparr>)
      | Some (Hash h) \<Rightarrow> (Inr (), db\<lparr>entries := (entries db)(k := Some (Hash (upd h)))\<rparr>)
      | Some (Ids xs) \<Rightarrow> (Inl WRONGTYPE, db))"

text \<open>\<^verbatim>\<open>HMGET key jobId data\<close>: the two fields, nil for a missing field or key.\<close>

definition hmget :: "redis \<Rightarrow> string \<times> string \<Rightarrow> error + string option \<times> string option" where
  "hmget db k =
     (case entries db k of
        None \<Rightarrow> Inr (None, None)
      | Some (Hash h) \<Rightarrow> Inr (JOB_ID h, DATA h)
      | Some (Ids xs) \<Rightarrow> Inl WRONGTYPE)"

text \<open>\<^verbatim>\<open>LPUSH key value\<close>: the value becomes the head (the left end) of the list.\<close>

definition lpush :: "redis \<Rightarrow> string \<times> string \<Rightarrow> string \<Rightarrow> (error + unit) \<times> redis" where
  "lpush db k v =
     (case list_at db k of
        Inl e \<Rightarrow> (Inl e, db)
      | Inr xs \<Rightarrow> (Inr (), put_list db k (v # xs)))"

text \<open>\<^verbatim>\<open>LREM key 1 value\<close>: removes the first occurrence of the value, from the head.\<close>

definition lrem :: "redis \<Rightarrow> string \<times> string \<Rightarrow> string \<Rightarrow> (error + unit) \<times> redis" where
  "lrem db k v =
     (case list_at db k of
        Inl e \<Rightarrow> (Inl e, db)
      | Inr xs \<Rightarrow> (Inr (), put_list db k (remove1 v xs)))"

text \<open>\<^verbatim>\<open>LRANGE key 0 -1\<close>: the whole list, head first.\<close>

definition lrange :: "redis \<Rightarrow> string \<times> string \<Rightarrow> error + string list" where
  "lrange db k = list_at db k"

text \<open>\<^verbatim>\<open>LMOVE source destination LEFT RIGHT\<close>: pops the head of the source and appends it
  to the tail of the destination, returning it; nil, and no change, when the source is
  empty or absent. With the source as destination the list is rotated. The kind of the
  destination is tested when there is an element to move.\<close>

definition lmove ::
  "redis \<Rightarrow> string \<times> string \<Rightarrow> string \<times> string \<Rightarrow> (error + string option) \<times> redis" where
  "lmove db src dst =
     (case list_at db src of
        Inl e \<Rightarrow> (Inl e, db)
      | Inr [] \<Rightarrow> (Inr None, db)
      | Inr (v # rest) \<Rightarrow>
          (case list_at db dst of
             Inl e \<Rightarrow> (Inl e, db)
           | Inr ys \<Rightarrow>
               (Inr (Some v),
                (let popped = put_list db src rest
                 in put_list popped dst (the_list popped dst @ [v])))))"

subsection \<open>Texts sent by the client\<close>

text \<open>A job id or a message that is nil, as text: the key template prints a nil id as
  \<^verbatim>\<open>null\<close>, and the client sends a nil or undefined argument as the empty string.\<close>

definition key_text :: "string option \<Rightarrow> string" where
  "key_text jobId = (case jobId of None \<Rightarrow> ''null'' | Some i \<Rightarrow> i)"

definition arg_text :: "string option \<Rightarrow> string" where
  "arg_text m = (case m of None \<Rightarrow> [] | Some t \<Rightarrow> t)"

text \<open>
  The enqueue script is sent as text, with the message of its error reply and the value
  of \<open>PENDING\<close> printed between single quotes. A text stands for itself there when it has
  no single quote, no backslash and no line break.
\<close>

definition lua_plain :: "string \<Rightarrow> bool" where
  "lua_plain t = list_all (\<lambda>c. c \<notin> set [CHR 0x27, CHR 0x5C, CHR 0x0A, CHR 0x0D]) t"

section \<open>DBActions\<close>

text \<open>
  What the code takes from modules that are not among the sources, as parameters of the
  model: \<open>decompressData\<close> of \<^verbatim>\<open>helpers/utils\<close>, which receives the \<^verbatim>\<open>data\<close> field as
  read; the string that is the value of each member of \<^verbatim>\<open>QUEUIFY_JOB_STATUS\<close>; and the
  text of \<^verbatim>\<open>JOB_ALREADY_EXISTS(jobId, queueName)\<close> of \<^verbatim>\<open>helpers/messages\<close>. The last
  parameter is what the store does with an enqueue script whose text is not the one
  written in \<^verbatim>\<open>db.ts\<close>, given the queue name, the job id and the data it is called with.
\<close>

record helpers =
  decompressData :: "string option \<Rightarrow> string"
  status_text :: "QUEUIFY_JOB_STATUS \<Rightarrow> string"
  JOB_ALREADY_EXISTS :: "string \<Rightarrow> string \<Rightarrow> string"
  other_script :: "string \<Rightarrow> string \<Rightarrow> string \<Rightarrow> redis \<Rightarrow> (error + unit) \<times> redis"

text \<open>The list of the ids of a queue in a status, as the statements read it.\<close>

definition id_lists :: "helpers \<Rightarrow> redis \<Rightarrow> string \<times> QUEUIFY_JOB_STATUS \<Rightarrow> string list" where
  "id_lists hp db k = the_list db (fst k, status_text hp (snd k))"

text \<open>A fetched job: the \<^verbatim>\<open>jobId\<close> field as read back (nil when the hash has none) and
  the decompressed \<^verbatim>\<open>data\<close> field.\<close>

record tJob =
  id' :: "string option"
  data' :: string

text \<open>
  \<^verbatim>\<open>getJobs(queueName, from, limit = 1)\<close>. The loop issues one \<^verbatim>\<open>LMOVE\<close> per round and
  stops at the first reply that JavaScript takes as false: nil, and also the empty
  string. An error reply rejects the awaited command, and with it the call. \<open>pop_ids\<close>
  is that loop, with the rounds left as its counter.
\<close>

fun pop_ids ::
  "helpers \<Rightarrow> redis \<Rightarrow> string \<Rightarrow> QUEUIFY_JOB_STATUS \<Rightarrow> nat \<Rightarrow> string list
     \<Rightarrow> (error + string list) \<times> redis" where
  "pop_ids hp db queueName from 0 jobIds = (Inr jobIds, db)"
| "pop_ids hp db queueName from (Suc rounds) jobIds =
     (case lmove db (queueName, status_text hp from) (queueName, status_text hp RUNNING) of
        (Inl e, db1) \<Rightarrow> (Inl e, db1)
      | (Inr None, db1) \<Rightarrow> (Inr jobIds, db1)
      | (Inr (Some jobId), db1) \<Rightarrow>
          if jobId = [] then (Inr jobIds, db1)
          else pop_ids hp db1 queueName from rounds (jobIds @ [jobId]))"

text \<open>
  \<open>limit\<close> is \<open>None\<close> when the caller passes no third argument, and then 1. The two
  transactions are the read of (jobId, data) for every popped id and the write of the
  status \<open>RUNNING\<close> for every popped id; both are sent before either is awaited, the read
  first, and a command that fails in a transaction fails alone. \<open>read_job\<close> builds the
  job from one reply of the read; the reply of a failed command has no value, and the
  destructuring of it throws. \<open>jobs_of\<close> is the loop over the replies.
\<close>

definition read_job :: "helpers \<Rightarrow> redis \<Rightarrow> string \<Rightarrow> string \<Rightarrow> error + tJob" where
  "read_job hp db queueName jobId =
     (case hmget db (queueName, jobId) of
        Inl e \<Rightarrow> Inl TypeError
      | Inr (jobId_field, data_field) \<Rightarrow>
          Inr \<lparr>id' = jobId_field, data' = decompressData hp data_field\<rparr>)"

fun jobs_of :: "(error + tJob) list \<Rightarrow> error + tJob list" where
  "jobs_of [] = Inr []"
| "jobs_of (result # results) =
     (case result of
        Inl e \<Rightarrow> Inl e
      | Inr job \<Rightarrow>
          (case jobs_of results of
             Inl e \<Rightarrow> Inl e
           | Inr jobs \<Rightarrow> Inr (job # jobs)))"

definition getJobs ::
  "helpers \<Rightarrow> redis \<Rightarrow> string \<Rightarrow> QUEUIFY_JOB_STATUS \<Rightarrow> int option
     \<Rightarrow> (error + tJob list) \<times> redis" where
  "getJobs hp db queueName from limit =
     (case pop_ids hp db queueName from (nat (case limit of None \<Rightarrow> 1 | Some l \<Rightarrow> l)) [] of
        (Inl e, db1) \<Rightarrow> (Inl e, db1)
      | (Inr jobIds, db1) \<Rightarrow>
          if jobIds = [] then (Inr [], db1)
          else
            (jobs_of (map (read_job hp db1 queueName) jobIds),
             fold (\<lambda>jobId d. snd (hset d (queueName, jobId) (\<lambda>h. h\<lparr>STATUS := Some RUNNING\<rparr>)))
               jobIds db1))"

text \<open>
  \<^verbatim>\<open>completeJob\<close> and \<open>failJob\<close> run three commands as one transaction and await it; the
  replies are not read. The id is \<open>None\<close> when the caller passes nil: the key is built
  from the template and the values are sent by the client.
\<close>

definition completeJob :: "helpers \<Rightarrow> redis \<Rightarrow> string \<Rightarrow> string option \<Rightarrow> redis" where
  "completeJob hp db queueName jobId =
     snd (lpush
       (snd (lrem
          (snd (hset db (queueName, key_text jobId) (\<lambda>h. h\<lparr>STATUS := Some COMPLETED\<rparr>)))
          (queueName, status_text hp RUNNING) (arg_text jobId)))
       (queueName, status_text hp COMPLETED) (arg_text jobId))"

definition updateJob ::
  "redis \<Rightarrow> string \<Rightarrow> string option \<Rightarrow> string \<Rightarrow> (error + unit) \<times> redis" where
  "updateJob db queueName jobId newData =
     hset db (queueName, key_text jobId) (\<lambda>h. h\<lparr>DATA := Some newData\<rparr>)"

definition failJob ::
  "helpers \<Rightarrow> redis \<Rightarrow> string \<Rightarrow> string option \<Rightarrow> string option \<Rightarrow> redis" where
  "failJob hp db queueName jobId failedReason =
     snd (lpush
       (snd (lrem
          (snd (hset db (queueName, key_text jobId)
                  (\<lambda>h. h\<lparr>STATUS := Some FAILED, FAILED_REASON := Some (arg_text failedReason)\<rparr>)))
          (queueName, status_text hp RUNNING) (arg_text jobId)))
       (queueName, status_text hp FAILED) (arg_text jobId))"

text \<open>
  \<^verbatim>\<open>moveJobsBetweenLists\<close>: reads the whole source list, then queues one \<^verbatim>\<open>LMOVE\<close> and one
  status write per id read and runs them as one transaction. The read is awaited on its
  own and rejects the call on an error reply. The test \<^verbatim>\<open>if (!jobRuns)\<close> never holds: an
  array, also an empty one, counts as true.
\<close>

definition moveJobsBetweenLists ::
  "helpers \<Rightarrow> redis \<Rightarrow> string \<Rightarrow> QUEUIFY_JOB_STATUS \<Rightarrow> QUEUIFY_JOB_STATUS
     \<Rightarrow> (error + string list) \<times> redis" where
  "moveJobsBetweenLists hp db queueName from to =
     (case lrange db (queueName, status_text hp from) of
        Inl e \<Rightarrow> (Inl e, db)
      | Inr jobRuns \<Rightarrow>
          (Inr jobRuns,
           fold (\<lambda>jobId d.
                   snd (hset
                     (snd (lmove d (queueName, status_text hp from) (queueName, status_text hp to)))
                     (queueName, jobId) (\<lambda>h. h\<lparr>STATUS := Some to\<rparr>)))
             jobRuns db))"

text \<open>
  \<^verbatim>\<open>addJob\<close> of \<^verbatim>\<open>DBActions\<close>: the script is evaluated by the store as one step. It
  replies with the error when the key of the job's hash exists, and otherwise writes
  the hash and pushes the id on the \<open>PENDING\<close> list; a command that fails ends the script
  with its error, and what the script wrote before stays written. The store after the
  call is part of the result in every case.
\<close>

definition db_addJob ::
  "helpers \<Rightarrow> redis \<Rightarrow> string \<Rightarrow> string \<Rightarrow> string \<Rightarrow> (error + unit) \<times> redis" where
  "db_addJob hp db queueName jobId data =
     (if lua_plain (JOB_ALREADY_EXISTS hp jobId queueName) \<and> lua_plain (status_text hp PENDING)
      then
        (if exists_cmd db (queueName, jobId)
         then (Inl (ReplyError (JOB_ALREADY_EXISTS hp jobId queueName)), db)
         else
           (case hset db (queueName, jobId)
                   (\<lambda>h. h\<lparr>JOB_ID := Some jobId, STATUS := Some PENDING, DATA := Some data\<rparr>) of
              (Inl e, db1) \<Rightarrow> (Inl e, db1)
            | (Inr u, db1) \<Rightarrow> lpush db1 (queueName, status_text hp PENDING) jobId))
      else other_script hp queueName jobId data db)"

section \<open>The engine\<close>

subsection \<open>Types\<close>

text \<open>
  A queue as handed to \<^verbatim>\<open>start\<close>: its name and its store connection, absent when the
  caller resolved none.
\<close>

record tQueue =
  name :: string
  db :: "nat option"

text \<open>
  What the promise of a worker routine does with a job: it resolves, or it rejects with a
  value whose \<^verbatim>\<open>message\<close> reads as the given text (\<open>None\<close> when \<^verbatim>\<open>error?.message\<close> is
  undefined).
\<close>

datatype outcome = Resolved | Rejected "string option"

record tWorkerConfig =
  type' :: "WORKER_TYPES option"

record tWorker =
  worker :: "(tJob \<Rightarrow> outcome) option"
  jobs :: "tJob list"
  status :: WORKER_STATUS
  config :: tWorkerConfig

text \<open>
  The value of the engine's \<^verbatim>\<open>queues\<close> map. The registry of workers is a JavaScript
  \<^verbatim>\<open>Map\<close>, which iterates in insertion order: an association list, written with
  \<open>AList.update\<close> (a new key goes to the end, a known key keeps its place). The
  \<^verbatim>\<open>dbActions\<close> handle is the store of the engine state below.
\<close>

record tQueueMapValue =
  queue :: tQueue
  workers :: "(string \<times> tWorker) list"
  idleWorkerId :: string
  isStalledJobsProcessingComplete :: bool

text \<open>The events emitted, with the queue name that prefixes the event name first.\<close>

datatype event =
    QUEUE_ADD string
  | JOB_ADD string
  | WORKER_ADD string string
  | JOB_POOL_REQUEST string string
  | JOB_POOL_PROCESS string string
  | JOB_COMPLETE string "string option"
  | JOB_FAIL string "string option"

text \<open>
  What an observer of the engine sees, in order: an event emitted, the three listeners
  of a queue registered (\<^verbatim>\<open>this.on\<close> in \<^verbatim>\<open>startWorkers\<close>), a child process forked, and
  the calls of \<^verbatim>\<open>DBActions\<close> with their arguments.
\<close>

datatype effect =
    Emit event
  | Listen string
  | Fork string string
  | Call_addJob string string
  | Call_getJobs string QUEUIFY_JOB_STATUS
  | Call_completeJob string "string option"
  | Call_failJob string "string option" "string option"
  | Call_moveJobsBetweenLists string QUEUIFY_JOB_STATUS QUEUIFY_JOB_STATUS

text \<open>
  Work that is suspended between two turns of the event loop: a pool request waiting at
  its last \<^verbatim>\<open>await\<close> with the jobs it fetched; a job whose routine was started in the
  process, with the number of its batch; a job sent to a forked child.
\<close>

datatype task =
    Request string string "tJob list"
  | Local string string nat tJob "tJob \<Rightarrow> outcome"
  | Sandboxed string string nat tJob

text \<open>
  The state: the store, the \<^verbatim>\<open>queues\<close> map, how many times the listeners of a queue were
  registered, the \<^verbatim>\<open>remainingJobs\<close> counter of every batch started by
  \<^verbatim>\<open>onJobsProcess\<close> (one closure per call, numbered as they are created), the suspended
  work and the effects so far. The engine's \<^verbatim>\<open>status\<close>, \<^verbatim>\<open>debug\<close> and \<^verbatim>\<open>globalDb\<close>
  are read by none of the methods below and are left out.
\<close>

record engine =
  store :: redis
  queues :: "string \<Rightarrow> tQueueMapValue option"
  listeners :: "string \<Rightarrow> nat"
  batches :: nat
  remainingJobs :: "nat \<Rightarrow> int"
  tasks :: "task list"
  trace :: "effect list"

definition new_engine :: "redis \<Rightarrow> engine" where
  "new_engine d =
     \<lparr>store = d, queues = (\<lambda>q. None), listeners = (\<lambda>q. 0), batches = 0,
      remainingJobs = (\<lambda>b. 0), tasks = [], trace = []\<rparr>"

subsection \<open>Helpers of the model\<close>

definition log :: "effect \<Rightarrow> engine \<Rightarrow> engine" where
  "log e s = s\<lparr>trace := trace s @ [e]\<rparr>"

text \<open>Assignments to a field of the queue's entry, and of one of its workers. The
  objects are shared by reference, so an assignment is seen through the map.\<close>

definition upd_queue :: "string \<Rightarrow> (tQueueMapValue \<Rightarrow> tQueueMapValue) \<Rightarrow> engine \<Rightarrow> engine" where
  "upd_queue q f s =
     (case queues s q of
        None \<Rightarrow> s
      | Some qv \<Rightarrow> s\<lparr>queues := (queues s)(q := Some (f qv))\<rparr>)"

definition upd_worker :: "string \<Rightarrow> string \<Rightarrow> (tWorker \<Rightarrow> tWorker) \<Rightarrow> engine \<Rightarrow> engine" where
  "upd_worker q w f s =
     upd_queue q
       (\<lambda>qv. case map_of (workers qv) w of
                None \<Rightarrow> qv
              | Some wd \<Rightarrow> qv\<lparr>workers := AList.update w (f wd) (workers qv)\<rparr>) s"

text \<open>
  Modelled from the spec: \<^verbatim>\<open>checkExisting\<close> of the helpers is not among the sources;
  \<^verbatim>\<open>registerQueue\<close> "fails with AlreadyExists if the name is taken", so the helper
  raises the message it is given when the entity looked up exists.
\<close>

definition checkExisting :: "'a option \<Rightarrow> error \<Rightarrow> error + unit" where
  "checkExisting entity message = (case entity of None \<Rightarrow> Inr () | Some e \<Rightarrow> Inl message)"

subsection \<open>Handlers\<close>

text \<open>
  \<^verbatim>\<open>onJobsProcess\<close> has no \<^verbatim>\<open>await\<close>: it runs in one turn. The loop pops the batch from
  its end and starts every job: a forked child for a sandbox worker, the routine's promise
  otherwise. What the started work does later is a task.
\<close>

definition first_idle :: "(string \<times> tWorker) list \<Rightarrow> string" where
  "first_idle ws =
     (case find (\<lambda>(workerId, wd). status wd = IDLE) ws of
        None \<Rightarrow> []
      | Some (workerId, wd) \<Rightarrow> workerId)"

fun dispatch ::
  "string \<Rightarrow> string \<Rightarrow> nat \<Rightarrow> bool \<Rightarrow> (tJob \<Rightarrow> outcome) \<Rightarrow> tJob list \<Rightarrow> engine \<Rightarrow> engine" where
  "dispatch queueName workerId batch isSandbox routine [] s = s"
| "dispatch queueName workerId batch isSandbox routine (job # rest) s =
     dispatch queueName workerId batch isSandbox routine rest
       (if isSandbox
        then log (Fork queueName workerId)
               (s\<lparr>tasks := tasks s @ [Sandboxed queueName workerId batch job]\<rparr>)
        else s\<lparr>tasks := tasks s @ [Local queueName workerId batch job routine]\<rparr>)"

definition onJobsProcess :: "string \<Rightarrow> string \<Rightarrow> engine \<Rightarrow> engine" where
  "onJobsProcess queueName workerId s =
     (case queues s queueName of
        None \<Rightarrow> s
      | Some queue0 \<Rightarrow>
          (case map_of (workers queue0) workerId of
             None \<Rightarrow> s
           | Some workerData \<Rightarrow>
               if jobs workerData = []
               then upd_queue queueName (\<lambda>qv. qv\<lparr>idleWorkerId := workerId\<rparr>)
                      (upd_worker queueName workerId (\<lambda>wd. wd\<lparr>status := IDLE\<rparr>) s)
               else
                 let s1 = upd_worker queueName workerId (\<lambda>wd. wd\<lparr>status := BUSY\<rparr>) s;
                     s2 = upd_queue queueName (\<lambda>qv. qv\<lparr>idleWorkerId := first_idle (workers qv)\<rparr>) s1
                 in (case worker workerData of
                       None \<Rightarrow> s2
                     | Some routine \<Rightarrow>
                         dispatch queueName workerId (batches s2)
                           (type' (config workerData) = Some SANDBOX) routine
                           (rev (jobs workerData))
                           (upd_worker queueName workerId (\<lambda>wd. wd\<lparr>jobs := []\<rparr>)
                              (s2\<lparr>batches := Suc (batches s2),
                                  remainingJobs := (remainingJobs s2)
                                    (batches s2 := int (length (jobs workerData)))\<rparr>)))))"

definition emit_process :: "string \<Rightarrow> string \<Rightarrow> engine \<Rightarrow> engine" where
  "emit_process queueName workerId s =
     (onJobsProcess queueName workerId ^^ listeners s queueName)
       (log (Emit (JOB_POOL_PROCESS queueName workerId)) s)"

text \<open>
  \<^verbatim>\<open>onJobsRequest\<close> in two parts. \<open>onJobsRequest_fetch\<close> is the handler up to its last
  \<^verbatim>\<open>await\<close>: the lookups, the fetch from \<open>STALLED\<close> while the flag is unset, the flag set
  on an empty reply, the fetch from \<open>PENDING\<close>. It gives \<open>None\<close> when the handler ended
  there: it returned at a lookup, or a call of \<open>getJobs\<close> threw and the promise of the
  handler, which nothing awaits, was rejected. \<open>onJobsRequest_push\<close> is the \<^verbatim>\<open>push\<close> on
  the worker's batch and \<open>onJobsRequest_deliver\<close> the rest of the handler, which runs in
  one turn with the \<^verbatim>\<open>JOB_POOL_PROCESS\<close> listener. \<open>getJobs\<close> is called without a limit.
\<close>

definition onJobsRequest_fetch ::
  "helpers \<Rightarrow> string \<Rightarrow> string \<Rightarrow> engine \<Rightarrow> tJob list option \<times> engine" where
  "onJobsRequest_fetch hp queueName workerId s =
     (case queues s queueName of
        None \<Rightarrow> (None, s)
      | Some queue0 \<Rightarrow>
          (case map_of (workers queue0) workerId of
             None \<Rightarrow> (None, s)
           | Some workerData \<Rightarrow>
               (case (if \<not> isStalledJobsProcessingComplete queue0
                      then (case getJobs hp (store s) queueName STALLED None of
                              (Inl e, d) \<Rightarrow>
                                (Inl e, log (Call_getJobs queueName STALLED) (s\<lparr>store := d\<rparr>))
                            | (Inr fetched, d) \<Rightarrow>
                                (Inr fetched,
                                 (if fetched = []
                                  then upd_queue queueName
                                         (\<lambda>qv. qv\<lparr>isStalledJobsProcessingComplete := True\<rparr>)
                                  else (\<lambda>s'. s'))
                                   (log (Call_getJobs queueName STALLED) (s\<lparr>store := d\<rparr>))))
                      else (Inr [], s)) of
                  (Inl e, s1) \<Rightarrow> (None, s1)
                | (Inr fetched, s1) \<Rightarrow>
                    if fetched = []
                    then (case getJobs hp (store s1) queueName PENDING None of
                            (Inl e, d) \<Rightarrow>
                              (None, log (Call_getJobs queueName PENDING) (s1\<lparr>store := d\<rparr>))
                          | (Inr fetched', d) \<Rightarrow>
                              (Some fetched', log (Call_getJobs queueName PENDING) (s1\<lparr>store := d\<rparr>)))
                    else (Some fetched, s1))))"

definition onJobsRequest_push :: "string \<Rightarrow> string \<Rightarrow> tJob list \<Rightarrow> engine \<Rightarrow> engine" where
  "onJobsRequest_push queueName workerId fetched s =
     upd_worker queueName workerId (\<lambda>wd. wd\<lparr>jobs := jobs wd @ fetched\<rparr>) s"

definition onJobsRequest_deliver :: "string \<Rightarrow> string \<Rightarrow> tJob list \<Rightarrow> engine \<Rightarrow> engine" where
  "onJobsRequest_deliver queueName workerId fetched s =
     (if fetched = [] then s
      else emit_process queueName workerId (onJobsRequest_push queueName workerId fetched s))"

text \<open>The handler run with nothing else between its parts.\<close>

definition onJobsRequest :: "helpers \<Rightarrow> string \<Rightarrow> string \<Rightarrow> engine \<Rightarrow> engine" where
  "onJobsRequest hp queueName workerId s =
     (case onJobsRequest_fetch hp queueName workerId s of
        (None, s1) \<Rightarrow> s1
      | (Some fetched, s1) \<Rightarrow> onJobsRequest_deliver queueName workerId fetched s1)"

text \<open>
  The listener as the event loop runs it: \<^verbatim>\<open>emit\<close> calls it, it runs to its
  \<^verbatim>\<open>await\<close>s and the rest is resumed in a later turn, so other handlers may run in
  between. The store commands of the fetch are taken where they are issued.
\<close>

definition onJobsRequest_suspend :: "helpers \<Rightarrow> string \<Rightarrow> string \<Rightarrow> engine \<Rightarrow> engine" where
  "onJobsRequest_suspend hp queueName workerId s =
     (case onJobsRequest_fetch hp queueName workerId s of
        (None, s1) \<Rightarrow> s1
      | (Some fetched, s1) \<Rightarrow> s1\<lparr>tasks := tasks s1 @ [Request queueName workerId fetched]\<rparr>)"

definition emit_request :: "helpers \<Rightarrow> string \<Rightarrow> string \<Rightarrow> engine \<Rightarrow> engine" where
  "emit_request hp queueName workerId s =
     (onJobsRequest_suspend hp queueName workerId ^^ listeners s queueName)
       (log (Emit (JOB_POOL_REQUEST queueName workerId)) s)"

definition onWorkerAdd :: "helpers \<Rightarrow> string \<Rightarrow> string \<Rightarrow> engine \<Rightarrow> engine" where
  "onWorkerAdd hp queueName workerId s =
     (case queues s queueName of
        None \<Rightarrow> s
      | Some queue0 \<Rightarrow>
          (case map_of (workers queue0) workerId of
             None \<Rightarrow> s
           | Some workerData \<Rightarrow> emit_request hp queueName workerId s))"

definition emit_worker_add :: "helpers \<Rightarrow> string \<Rightarrow> string \<Rightarrow> engine \<Rightarrow> engine" where
  "emit_worker_add hp queueName workerId s =
     (onWorkerAdd hp queueName workerId ^^ listeners s queueName)
       (log (Emit (WORKER_ADD queueName workerId)) s)"

text \<open>The closures of \<^verbatim>\<open>onJobsProcess\<close>, with the batch whose counter they share. They
  pass on the id of the job as it was read, and \<open>onFailed\<close> the message as it was found.\<close>

definition onComplete :: "helpers \<Rightarrow> string \<Rightarrow> string option \<Rightarrow> engine \<Rightarrow> engine" where
  "onComplete hp queueName jobId s =
     log (Emit (JOB_COMPLETE queueName jobId))
       (log (Call_completeJob queueName jobId)
          (s\<lparr>store := completeJob hp (store s) queueName jobId\<rparr>))"

definition onFailed ::
  "helpers \<Rightarrow> string \<Rightarrow> string option \<Rightarrow> string option \<Rightarrow> engine \<Rightarrow> engine" where
  "onFailed hp queueName jobId errorMessage s =
     log (Emit (JOB_FAIL queueName jobId))
       (log (Call_failJob queueName jobId errorMessage)
          (s\<lparr>store := failJob hp (store s) queueName jobId errorMessage\<rparr>))"

definition onFinish :: "helpers \<Rightarrow> string \<Rightarrow> string \<Rightarrow> nat \<Rightarrow> engine \<Rightarrow> engine" where
  "onFinish hp queueName workerId batch s =
     (let s1 = s\<lparr>remainingJobs := (remainingJobs s)(batch := remainingJobs s batch - 1)\<rparr>
      in if remainingJobs s1 batch = 0
         then emit_request hp queueName workerId
                (upd_queue queueName (\<lambda>qv. qv\<lparr>idleWorkerId := workerId\<rparr>)
                   (upd_worker queueName workerId (\<lambda>wd. wd\<lparr>status := IDLE\<rparr>) s1))
         else s1)"

text \<open>The promise chain of a job run in the process:
  \<^verbatim>\<open>.then(onComplete).catch(error => onFailed(job.id, error?.message))\<close>, before
  \<^verbatim>\<open>.finally(onFinish)\<close>.\<close>

definition local_chain :: "helpers \<Rightarrow> string \<Rightarrow> tJob \<Rightarrow> (tJob \<Rightarrow> outcome) \<Rightarrow> engine \<Rightarrow> engine" where
  "local_chain hp queueName job routine s =
     (case routine job of
        Resolved \<Rightarrow> onComplete hp queueName (id' job) s
      | Rejected message \<Rightarrow> onFailed hp queueName (id' job) message s)"

text \<open>The \<^verbatim>\<open>message\<close> listener of a forked child, before \<^verbatim>\<open>onFinish\<close>:
  \<^verbatim>\<open>result?.error?.message || 'Something went wrong'\<close> takes the default for an undefined
  and for an empty message.\<close>

definition or_default :: "string option \<Rightarrow> string" where
  "or_default message =
     (case message of
        None \<Rightarrow> ''Something went wrong''
      | Some t \<Rightarrow> if t = [] then ''Something went wrong'' else t)"

definition sandbox_message ::
  "helpers \<Rightarrow> string \<Rightarrow> tJob \<Rightarrow> QUEUIFY_JOB_STATUS \<Rightarrow> string option \<Rightarrow> engine \<Rightarrow> engine" where
  "sandbox_message hp queueName job result_status error_message s =
     (if result_status = COMPLETED then onComplete hp queueName (id' job) s
      else onFailed hp queueName (id' job) (Some (or_default error_message)) s)"

definition sandbox_error :: "helpers \<Rightarrow> string \<Rightarrow> tJob \<Rightarrow> string option \<Rightarrow> engine \<Rightarrow> engine" where
  "sandbox_error hp queueName job error_message s =
     onFailed hp queueName (id' job) (Some (''Spawn Failed! '' @ or_default error_message)) s"

subsection \<open>The public methods\<close>

text \<open>
  \<^verbatim>\<open>start\<close> raises before it writes: the engine after the call is part of the result in
  every case.
\<close>

definition start :: "tQueue \<Rightarrow> engine \<Rightarrow> (error + unit) \<times> engine" where
  "start queue0 s =
     (if db queue0 = None then (Inl (Error ''Queue db is required''), s)
      else
        (case checkExisting (queues s (name queue0)) (ALREADY_EXISTS QUEUE (name queue0)) of
           Inl e \<Rightarrow> (Inl e, s)
         | Inr u \<Rightarrow>
             (Inr (),
              log (Emit (QUEUE_ADD (name queue0)))
                (s\<lparr>queues := (queues s)(name queue0 :=
                      Some \<lparr>queue = queue0, workers = [], idleWorkerId = [],
                            isStalledJobsProcessingComplete = False\<rparr>)\<rparr>))))"

definition engine_addJob ::
  "helpers \<Rightarrow> string \<Rightarrow> string \<Rightarrow> string \<Rightarrow> engine \<Rightarrow> (error + unit) \<times> engine" where
  "engine_addJob hp queueName jobId data s =
     (case queues s queueName of
        None \<Rightarrow> (Inr (), s)
      | Some queue0 \<Rightarrow>
          (case db_addJob hp (store s) queueName jobId data of
             (Inl e, d) \<Rightarrow> (Inl e, log (Call_addJob queueName jobId) (s\<lparr>store := d\<rparr>))
           | (Inr u, d) \<Rightarrow>
               (Inr (),
                (if idleWorkerId queue0 \<noteq> []
                 then emit_request hp queueName (idleWorkerId queue0)
                 else (\<lambda>s'. s'))
                  (log (Emit (JOB_ADD queueName))
                     (log (Call_addJob queueName jobId) (s\<lparr>store := d\<rparr>))))))"

text \<open>
  \<^verbatim>\<open>startWorkerPool\<close> receives the queue's entry, moves by the name stored in it and
  sets the flag on it; \<open>queueName\<close> is the key under which \<^verbatim>\<open>startWorkers\<close> found the
  entry. When the move throws, \<^verbatim>\<open>startWorkerPool\<close>, \<^verbatim>\<open>startWorkers\<close> and \<^verbatim>\<open>addWorker\<close>
  end there, each rejecting with the error.
\<close>

definition startWorkerPool ::
  "helpers \<Rightarrow> string \<Rightarrow> tQueueMapValue \<Rightarrow> engine \<Rightarrow> (error + unit) \<times> engine" where
  "startWorkerPool hp queueName queue0 s =
     (case moveJobsBetweenLists hp (store s) (name (queue queue0)) RUNNING STALLED of
        (Inl e, d) \<Rightarrow>
          (Inl e,
           log (Call_moveJobsBetweenLists (name (queue queue0)) RUNNING STALLED) (s\<lparr>store := d\<rparr>))
      | (Inr stalledJobs, d) \<Rightarrow>
          (Inr (),
           (if stalledJobs = []
            then upd_queue queueName (\<lambda>qv. qv\<lparr>isStalledJobsProcessingComplete := True\<rparr>)
            else (\<lambda>s'. s'))
             (log (Call_moveJobsBetweenLists (name (queue queue0)) RUNNING STALLED)
                (s\<lparr>store := d\<rparr>))))"

definition startWorkers :: "helpers \<Rightarrow> string \<Rightarrow> engine \<Rightarrow> (error + unit) \<times> engine" where
  "startWorkers hp queueName s =
     (case queues s queueName of
        None \<Rightarrow> (Inr (), s)
      | Some queueData \<Rightarrow>
          (case startWorkerPool hp queueName queueData s of
             (Inl e, s1) \<Rightarrow> (Inl e, s1)
           | (Inr u, s1) \<Rightarrow>
               (Inr (),
                log (Listen queueName)
                  (s1\<lparr>listeners := (listeners s1)(queueName := Suc (listeners s1 queueName))\<rparr>))))"

text \<open>\<^verbatim>\<open>addWorker\<close>; \<open>workerId\<close> is what \<^verbatim>\<open>generateId()\<close> returned, an id not in the
  registry. \<open>set_worker\<close> is the \<^verbatim>\<open>queue.workers.set\<close> of the new worker.\<close>

definition set_worker ::
  "string \<Rightarrow> (tJob \<Rightarrow> outcome) option \<Rightarrow> tWorkerConfig \<Rightarrow> string \<Rightarrow> engine \<Rightarrow> engine" where
  "set_worker queueName workerFunction workerConfig workerId s =
     upd_queue queueName
       (\<lambda>qv. qv\<lparr>workers :=
                AList.update workerId
                  \<lparr>worker = workerFunction, jobs = [], status = IDLE, config = workerConfig\<rparr>
                  (workers qv)\<rparr>) s"

definition addWorker ::
  "helpers \<Rightarrow> string \<Rightarrow> (tJob \<Rightarrow> outcome) option \<Rightarrow> tWorkerConfig \<Rightarrow> string
     \<Rightarrow> engine \<Rightarrow> (error + unit) \<times> engine" where
  "addWorker hp queueName workerFunction workerConfig workerId s =
     (case queues s queueName of
        None \<Rightarrow> (Inr (), s)
      | Some queue0 \<Rightarrow>
          (let hasWorkers = (0 < length (workers queue0));
               s1 = set_worker queueName workerFunction workerConfig workerId s
           in (case (if \<not> hasWorkers then startWorkers hp queueName s1 else (Inr (), s1)) of
                 (Inl e, s2) \<Rightarrow> (Inl e, s2)
               | (Inr u, s2) \<Rightarrow> (Inr (), emit_worker_add hp queueName workerId s2))))"

subsection \<open>Turns of the event loop\<close>

text \<open>
  One turn: a call of a public method, or the continuation of one task. \<open>Resume k\<close>
  continues a suspended pool request, or settles the promise of a job run in the process
  as its routine says and then calls \<^verbatim>\<open>onFinish\<close>; \<open>Message k\<close> and \<open>Child_error k\<close> are the
  two events of the child forked for task \<open>k\<close>. A turn that names no such task does
  nothing. A public method that rejects leaves the engine as it was when it threw, and
  the engine goes on with the next turn.
\<close>

datatype turn =
    Start tQueue
  | AddJob string string string
  | AddWorker string "(tJob \<Rightarrow> outcome) option" tWorkerConfig string
  | Resume nat
  | Message nat QUEUIFY_JOB_STATUS "string option"
  | Child_error nat "string option"

definition drop_task :: "nat \<Rightarrow> engine \<Rightarrow> engine" where
  "drop_task k s = s\<lparr>tasks := take k (tasks s) @ drop (Suc k) (tasks s)\<rparr>"

definition task_at :: "nat \<Rightarrow> engine \<Rightarrow> task option" where
  "task_at k s = (if k < length (tasks s) then Some (tasks s ! k) else None)"

definition step :: "helpers \<Rightarrow> turn \<Rightarrow> engine \<Rightarrow> engine" where
  "step hp t s =
     (case t of
        Start queue0 \<Rightarrow> snd (start queue0 s)
      | AddJob queueName jobId data \<Rightarrow> snd (engine_addJob hp queueName jobId data s)
      | AddWorker queueName workerFunction workerConfig workerId \<Rightarrow>
          snd (addWorker hp queueName workerFunction workerConfig workerId s)
      | Resume k \<Rightarrow>
          (case task_at k s of
             Some (Request queueName workerId fetched) \<Rightarrow>
               onJobsRequest_deliver queueName workerId fetched (drop_task k s)
           | Some (Local queueName workerId batch job routine) \<Rightarrow>
               onFinish hp queueName workerId batch
                 (local_chain hp queueName job routine (drop_task k s))
           | Some (Sandboxed queueName workerId batch job) \<Rightarrow> s
           | None \<Rightarrow> s)
      | Message k result_status error_message \<Rightarrow>
          (case task_at k s of
             Some (Sandboxed queueName workerId batch job) \<Rightarrow>
               onFinish hp queueName workerId batch
                 (sandbox_message hp queueName job result_status error_message (drop_task k s))
           | Some other \<Rightarrow> s
           | None \<Rightarrow> s)
      | Child_error k error_message \<Rightarrow>
          (case task_at k s of
             Some (Sandboxed queueName workerId batch job) \<Rightarrow>
               onFinish hp queueName workerId batch
                 (sandbox_error hp queueName job error_message (drop_task k s))
           | Some other \<Rightarrow> s
           | None \<Rightarrow> s))"

definition run :: "helpers \<Rightarrow> turn list \<Rightarrow> engine \<Rightarrow> engine" where
  "run hp ts s = fold (step hp) ts s"

section \<open>Observations used in the statements\<close>

text \<open>\<open>fetches\<close> is a number of pool requests in a row, each up to its fetched jobs,
  with the replies in order.\<close>

fun fetches ::
  "helpers \<Rightarrow> string \<Rightarrow> string \<Rightarrow> nat \<Rightarrow> engine \<Rightarrow> tJob list option list \<times> engine" where
  "fetches hp queueName workerId 0 s = ([], s)"
| "fetches hp queueName workerId (Suc n) s =
     (case onJobsRequest_fetch hp queueName workerId s of
        (fetched, s1) \<Rightarrow>
          (case fetches hp queueName workerId n s1 of
             (others, s2) \<Rightarrow> (fetched # others, s2)))"


text \<open>The recovery flag of a registered queue is set.\<close>

definition recovered :: "string \<Rightarrow> engine \<Rightarrow> bool" where
  "recovered q s =
     (case queues s q of
        None \<Rightarrow> False
      | Some qv \<Rightarrow> isStalledJobsProcessingComplete qv)"

text \<open>The status of a worker, and whether one of its jobs is running in the process.\<close>

definition worker_status :: "string \<Rightarrow> string \<Rightarrow> engine \<Rightarrow> WORKER_STATUS option" where
  "worker_status q w s =
     (case queues s q of
        None \<Rightarrow> None
      | Some qv \<Rightarrow> map_option status (map_of (workers qv) w))"

definition worker_jobs :: "string \<Rightarrow> string \<Rightarrow> engine \<Rightarrow> tJob list" where
  "worker_jobs q w s =
     (case queues s q of
        None \<Rightarrow> []
      | Some qv \<Rightarrow> (case map_of (workers qv) w of None \<Rightarrow> [] | Some wd \<Rightarrow> jobs wd))"

definition in_local_dispatch :: "string \<Rightarrow> string \<Rightarrow> engine \<Rightarrow> bool" where
  "in_local_dispatch q w s =
     list_ex (\<lambda>t. case t of
                     Local q' w' batch job routine \<Rightarrow> q' = q \<and> w' = w
                   | Request q' w' fetched \<Rightarrow> False
                   | Sandboxed q' w' batch job \<Rightarrow> False) (tasks s)"

text \<open>
  Where the keys of a queue do not meet. \<open>lists_apart\<close>: the statuses have different
  values, and no key of a list of the queue holds a hash. \<open>id_apart\<close>: the id is not the
  value of a status, and its key holds no list. \<open>job_at\<close> is the job that a read of the
  id's hash gives.
\<close>

definition statuses :: "QUEUIFY_JOB_STATUS list" where
  "statuses = [PENDING, RUNNING, STALLED, COMPLETED, FAILED]"

definition holds_list :: "redis \<Rightarrow> string \<times> string \<Rightarrow> bool" where
  "holds_list d k =
     (case entries d k of
        None \<Rightarrow> False
      | Some (Hash h) \<Rightarrow> False
      | Some (Ids xs) \<Rightarrow> True)"

definition lists_apart :: "helpers \<Rightarrow> redis \<Rightarrow> string \<Rightarrow> bool" where
  "lists_apart hp d q \<longleftrightarrow>
     distinct (map (status_text hp) statuses) \<and>
     list_all (\<lambda>st. hashes d (q, status_text hp st) = None) statuses"

definition id_apart :: "helpers \<Rightarrow> redis \<Rightarrow> string \<Rightarrow> string \<Rightarrow> bool" where
  "id_apart hp d q i \<longleftrightarrow>
     i \<notin> set (map (status_text hp) statuses) \<and> \<not> holds_list d (q, i)"

definition job_at :: "helpers \<Rightarrow> redis \<Rightarrow> string \<Rightarrow> string \<Rightarrow> tJob" where
  "job_at hp d q i =
     (case hashes d (q, i) of
        None \<Rightarrow> \<lparr>id' = None, data' = decompressData hp None\<rparr>
      | Some h \<Rightarrow> \<lparr>id' = JOB_ID h, data' = decompressData hp (DATA h)\<rparr>)"

subsection \<open>Relations between states\<close>







subsection \<open>Example inputs\<close>

text \<open>
  Stand-ins for the parameters in the examples: the stored text itself for
  \<open>decompressData\<close>, the names of the statuses in lower case as their values, a message
  that names the id and the queue, and a store that answers a script with another text by
  an error and changes nothing.
\<close>

definition plain :: helpers where
  "plain =
     \<lparr>decompressData = (\<lambda>stored. case stored of None \<Rightarrow> [] | Some t \<Rightarrow> t),
      status_text =
        (\<lambda>st. case st of
                 PENDING \<Rightarrow> ''pending''
               | RUNNING \<Rightarrow> ''running''
               | STALLED \<Rightarrow> ''stalled''
               | COMPLETED \<Rightarrow> ''completed''
               | FAILED \<Rightarrow> ''failed''),
      JOB_ALREADY_EXISTS =
        (\<lambda>jobId queueName. ''Job '' @ jobId @ '' already exists in queue '' @ queueName),
      other_script = (\<lambda>queueName jobId data d. (Inl (ReplyError ''Error compiling script''), d))\<rparr>"

definition local_config :: tWorkerConfig where
  "local_config = \<lparr>type' = None\<rparr>"

text \<open>A store left by a process that enqueued \<open>a\<close>, \<open>b\<close>, \<open>c\<close>, fetched two of them and
  stopped: \<open>c\<close> and \<open>b\<close> are on the \<open>RUNNING\<close> list, \<open>a\<close> is pending.\<close>

definition crashed_store :: redis where
  "crashed_store =
     snd (getJobs plain
       (snd (getJobs plain
          (snd (db_addJob plain (snd (db_addJob plain (snd (db_addJob plain no_keys ''q'' ''a'' ''x''))
             ''q'' ''b'' ''y'')) ''q'' ''c'' ''z''))
          ''q'' PENDING None))
       ''q'' PENDING None)"

definition restarted_queue :: tQueueMapValue where
  "restarted_queue =
     \<lparr>queue = \<lparr>name = ''q'', db = Some 0\<rparr>,
      workers = [(''w1'', \<lparr>worker = Some (\<lambda>job. Resolved), jobs = [], status = IDLE,
                          config = local_config\<rparr>)],
      idleWorkerId = [], isStalledJobsProcessingComplete = False\<rparr>"

text \<open>The next process on a store, with the queue registered and its first worker in
  the registry, before \<^verbatim>\<open>startWorkers\<close>.\<close>

definition restarted_on :: "redis \<Rightarrow> engine" where
  "restarted_on d = (new_engine d)\<lparr>queues := (\<lambda>q. None)(''q'' := Some restarted_queue)\<rparr>"

definition restarted :: engine where
  "restarted = restarted_on crashed_store"

text \<open>An engine in which job \<open>a\<close> of queue \<open>q\<close> was fetched and is run in the process by a
  routine that throws an error with message \<open>boom\<close>.\<close>

definition throwing :: engine where
  "throwing =
     (new_engine (snd (getJobs plain (snd (db_addJob plain no_keys ''q'' ''a'' ''x'')) ''q'' PENDING None)))
       \<lparr>tasks := [Local ''q'' ''w1'' 0 \<lparr>id' = Some ''a'', data' = ''x''\<rparr>
                    (\<lambda>job. Rejected (Some ''boom''))]\<rparr>"

text \<open>A queue on which the empty string was enqueued as a job id after \<open>a\<close>: it is the
  head of the \<open>PENDING\<close> list.\<close>

definition empty_id_store :: redis where
  "empty_id_store =
     snd (db_addJob plain (snd (db_addJob plain no_keys ''q'' ''a'' ''x'')) ''q'' [] ''y'')"

text \<open>A store left by a process that enqueued the empty id, fetched once and then
  enqueued \<open>a\<close>: the empty id is on the \<open>RUNNING\<close> list. The next process registers the
  queue and a first worker; \<open>recovering_empty_id\<close> is its state after \<open>startWorkers\<close>.\<close>

definition empty_id_running :: redis where
  "empty_id_running =
     snd (db_addJob plain
       (snd (getJobs plain (snd (db_addJob plain no_keys ''q'' [] ''y'')) ''q'' PENDING None))
       ''q'' ''a'' ''x'')"

definition recovering_empty_id :: engine where
  "recovering_empty_id = snd (startWorkers plain ''q'' (restarted_on empty_id_running))"

text \<open>A store left by a process that enqueued \<open>b\<close> and the empty id, fetched twice and
  then enqueued \<open>a\<close>: the empty id and \<open>b\<close> are on the \<open>RUNNING\<close> list, \<open>a\<close> is pending.\<close>

definition empty_id_crashed :: redis where
  "empty_id_crashed =
     snd (db_addJob plain
       (snd (getJobs plain
          (snd (getJobs plain
             (snd (db_addJob plain (snd (db_addJob plain no_keys ''q'' ''b'' ''y'')) ''q'' [] ''z''))
             ''q'' PENDING None))
          ''q'' PENDING None))
       ''q'' ''a'' ''x'')"

text \<open>
  Turns of one process on an empty store: a job is enqueued, a worker whose routine
  returns is registered and served (turns 3 to 6), then two jobs are enqueued one after
  the other while the worker is the idle one, so each enqueue emits a pool request for
  it; the two requests are resumed, and the job of the first one settles.
\<close>

definition overlapping :: "turn list" where
  "overlapping =
     [Start \<lparr>name = ''q'', db = Some 0\<rparr>,
      AddJob ''q'' ''j1'' ''x'',
      AddWorker ''q'' (Some (\<lambda>job. Resolved)) local_config ''w1'',
      Resume 0, Resume 0, Resume 0,
      AddJob ''q'' ''j2'' ''x'',
      AddJob ''q'' ''j3'' ''x'',
      Resume 0, Resume 0,
      Resume 0]"

text \<open>Runs of one process on an empty store: a job is enqueued under the given id, then
  a worker is registered, the pool request is resumed and the job settles.\<close>

definition one_job :: "string \<Rightarrow> (tJob \<Rightarrow> outcome) \<Rightarrow> turn list" where
  "one_job jobId routine =
     [Start \<lparr>name = ''q'', db = Some 0\<rparr>,
      AddJob ''q'' jobId ''x'',
      AddWorker ''q'' (Some routine) local_config ''w1'',
      Resume 0,
      Resume 0]"

text \<open>A run in which the worker is registered first, its pool request finds nothing and
  is resumed, and job \<open>a\<close> is enqueued after that.\<close>

definition worker_first :: "turn list" where
  "worker_first =
     [Start \<lparr>name = ''q'', db = Some 0\<rparr>,
      AddWorker ''q'' (Some (\<lambda>job. Resolved)) local_config ''w1'',
      Resume 0,
      AddJob ''q'' ''a'' ''x'']"

section \<open>The store commands\<close>

lemma hashes_hset:
  "hashes (snd (hset d k upd)) =
     (if holds_list d k then hashes d
      else (hashes d)(k := Some (upd (case hashes d k of None \<Rightarrow> no_fields | Some h \<Rightarrow> h))))"
  by (auto simp add: hset_def hashes_def holds_list_def fun_eq_iff split: option.splits entry.splits)

lemma list_hset: "the_list (snd (hset d k upd)) = the_list d"
  by (auto simp add: hset_def the_list_def fun_eq_iff split: option.splits entry.splits)

lemma holds_list_hset: "holds_list (snd (hset d k upd)) = holds_list d"
  by (auto simp add: hset_def holds_list_def fun_eq_iff split: option.splits entry.splits)

lemma fst_hset: "fst (hset d k upd) = (if holds_list d k then Inl WRONGTYPE else Inr ())"
  by (auto simp add: hset_def holds_list_def split: option.splits entry.splits)

lemma hashes_put_list: "hashes d k = None \<Longrightarrow> hashes (put_list d k xs) = hashes d"
  by (auto simp add: put_list_def hashes_def fun_eq_iff split: option.splits entry.splits)

lemma list_put_list: "the_list (put_list d k xs) = (the_list d)(k := xs)"
  by (auto simp add: put_list_def the_list_def fun_eq_iff)

lemma holds_list_put_list: "k' \<noteq> k \<Longrightarrow> holds_list (put_list d k xs) k' = holds_list d k'"
  by (simp add: put_list_def holds_list_def)

lemma list_at_cases:
  "list_at d k = (if hashes d k = None then Inr (the_list d k) else Inl WRONGTYPE)"
  by (simp add: list_at_def hashes_def the_list_def split: option.splits entry.splits)

lemma hashes_lpush: "hashes (snd (lpush d k v)) = hashes d"
  by (simp add: lpush_def list_at_cases hashes_put_list)

lemma list_lpush:
  "the_list (snd (lpush d k v)) =
     (if hashes d k = None then (the_list d)(k := v # the_list d k) else the_list d)"
  by (simp add: lpush_def list_at_cases list_put_list)

lemma holds_list_lpush: "k' \<noteq> k \<Longrightarrow> holds_list (snd (lpush d k v)) k' = holds_list d k'"
  by (simp add: lpush_def list_at_cases holds_list_put_list)

lemma hashes_lrem: "hashes (snd (lrem d k v)) = hashes d"
  by (simp add: lrem_def list_at_cases hashes_put_list)

lemma list_of_hash: "hashes d k \<noteq> None \<Longrightarrow> the_list d k = []"
  by (auto simp add: hashes_def the_list_def split: option.splits entry.splits)

lemma list_lrem:
  "the_list (snd (lrem d k v)) = (the_list d)(k := remove1 v (the_list d k))"
proof (cases "hashes d k = None")
  case True
  then show ?thesis by (simp add: lrem_def list_at_cases list_put_list)
next
  case False
  with list_of_hash[of d k] have "the_list d k = []" by simp
  then show ?thesis using False by (auto simp add: lrem_def list_at_cases fun_eq_iff)
qed

lemma holds_list_lrem: "k' \<noteq> k \<Longrightarrow> holds_list (snd (lrem d k v)) k' = holds_list d k'"
  by (simp add: lrem_def list_at_cases holds_list_put_list)

lemma hashes_lmove: "hashes (snd (lmove d src dst)) = hashes d"
  by (auto simp add: lmove_def list_at_cases hashes_put_list Let_def split: list.splits)

lemma holds_list_lmove:
  "k' \<noteq> src \<Longrightarrow> k' \<noteq> dst \<Longrightarrow> holds_list (snd (lmove d src dst)) k' = holds_list d k'"
  by (auto simp add: lmove_def list_at_cases holds_list_put_list Let_def split: list.splits)

lemma lmove_Nil: "the_list d src = [] \<Longrightarrow> snd (lmove d src dst) = d"
  by (simp add: lmove_def list_at_cases)

lemma lmove_Cons:
  assumes "the_list d src = v # rest" "hashes d dst = None"
  shows "fst (lmove d src dst) = Inr (Some v)"
    and "the_list (snd (lmove d src dst)) =
       (if src = dst then (the_list d)(src := rest @ [v])
        else (the_list d)(src := rest, dst := the_list d dst @ [v]))"
proof -
  have h: "hashes d src = None"
    using assms(1) by (auto simp add: hashes_def the_list_def split: option.splits entry.splits)
  show "fst (lmove d src dst) = Inr (Some v)"
    using assms h by (simp add: lmove_def list_at_cases)
  show "the_list (snd (lmove d src dst)) =
       (if src = dst then (the_list d)(src := rest @ [v])
        else (the_list d)(src := rest, dst := the_list d dst @ [v]))"
    using assms h by (auto simp add: lmove_def list_at_cases list_put_list Let_def fun_eq_iff)
qed

text \<open>The lists of the statuses, under the hypothesis that the statuses have different
  values.\<close>

lemma status_key:
  "distinct (map (status_text hp) statuses) \<Longrightarrow>
     (status_text hp st = status_text hp st') = (st = st')"
  by (cases st; cases st') (auto simp add: statuses_def)

lemma lists_apartD:
  assumes "lists_apart hp d q"
  shows "hashes d (q, status_text hp st) = None"
    and "(status_text hp st = status_text hp st') = (st = st')"
proof -
  from assms have "list_all (\<lambda>st. hashes d (q, status_text hp st) = None) statuses"
    by (simp add: lists_apart_def)
  then show "hashes d (q, status_text hp st) = None"
    by (cases st) (simp_all add: statuses_def)
  from assms show "(status_text hp st = status_text hp st') = (st = st')"
    by (simp add: lists_apart_def status_key)
qed

lemma id_apartD:
  assumes "id_apart hp d q i"
  shows "\<not> holds_list d (q, i)" and "i \<noteq> status_text hp st"
proof -
  from assms show "\<not> holds_list d (q, i)" by (simp add: id_apart_def)
  from assms have "i \<notin> set (map (status_text hp) statuses)" by (simp add: id_apart_def)
  then show "i \<noteq> status_text hp st" by (cases st) (auto simp add: statuses_def)
qed

lemma lists_apart_cong:
  "hashes d' = hashes d \<Longrightarrow> lists_apart hp d' q = lists_apart hp d q"
  by (simp add: lists_apart_def)

lemma lists_apart_hset:
  assumes "lists_apart hp d q" "id_apart hp d q' i"
  shows "lists_apart hp (snd (hset d (q', i) upd)) q"
proof -
  have "hashes (snd (hset d (q', i) upd)) (q, status_text hp st) = None" for st
    using lists_apartD(1)[OF assms(1), of st] id_apartD(2)[OF assms(2), of st]
    by (simp add: hashes_hset)
  then show ?thesis using assms(1) by (simp add: lists_apart_def list_all_iff)
qed

lemma id_apart_cong:
  "holds_list d' (q, i) = holds_list d (q, i) \<Longrightarrow> id_apart hp d' q i = id_apart hp d q i"
  by (simp add: id_apart_def)

section \<open>Completing and failing a job\<close>

text \<open>
  Claim C9, at an id that is the value of a status. \<open>completeJob\<close> and \<open>failJob\<close> never
  throw: they await a transaction and do not read its replies. But the hash of a job and
  the list of a status are one key when the id is the value of the status. With
  \<open>completed\<close> as the value of \<open>COMPLETED\<close> and a store without keys, \<open>completeJob\<close> of the id
  \<open>completed\<close> creates the hash with the status and then pushes on the key of that hash:
  the push fails, and the id is not on the \<open>COMPLETED\<close> list after one call nor after two,
  and neither is the id of a job completed later. On a store where job \<open>a\<close> was completed
  before, the key holds the list: the status write fails, the id gets no record, and it
  is pushed. \<open>failJob\<close> of the id \<open>failed\<close> writes the status and the reason and does not
  push.
\<close>

theorem completeJob_failJob_status_id:
  "status_text plain COMPLETED = ''completed'' \<and>
   status_text plain FAILED = ''failed'' \<and>
   entries (completeJob plain no_keys ''q'' (Some ''completed'')) (''q'', ''completed'') =
     Some (Hash \<lparr>JOB_ID = None, DATA = None, STATUS = Some COMPLETED, FAILED_REASON = None\<rparr>) \<and>
   id_lists plain (completeJob plain no_keys ''q'' (Some ''completed'')) (''q'', COMPLETED) = [] \<and>
   id_lists plain
     (completeJob plain (completeJob plain no_keys ''q'' (Some ''completed'')) ''q'' (Some ''completed''))
     (''q'', COMPLETED) = [] \<and>
   id_lists plain
     (completeJob plain (completeJob plain no_keys ''q'' (Some ''completed'')) ''q'' (Some ''a''))
     (''q'', COMPLETED) = [] \<and>
   id_lists plain (completeJob plain no_keys ''q'' (Some ''a'')) (''q'', COMPLETED) = [''a''] \<and>
   hashes (completeJob plain (completeJob plain no_keys ''q'' (Some ''a'')) ''q'' (Some ''completed''))
     (''q'', ''completed'') = None \<and>
   id_lists plain
     (completeJob plain (completeJob plain no_keys ''q'' (Some ''a'')) ''q'' (Some ''completed''))
     (''q'', COMPLETED) = [''completed'', ''a''] \<and>
   entries (failJob plain no_keys ''q'' (Some ''failed'') (Some ''r'')) (''q'', ''failed'') =
     Some (Hash \<lparr>JOB_ID = None, DATA = None, STATUS = Some FAILED, FAILED_REASON = Some ''r''\<rparr>) \<and>
   id_lists plain (failJob plain no_keys ''q'' (Some ''failed'') (Some ''r'')) (''q'', FAILED) = []"
  by code_simp

section \<open>Enqueuing\<close>

text \<open>
  Claim C1, at an id that is the value of a status. The script tests the key of the
  job's hash, which is the key of a list when the id is the value of a status. With
  \<open>pending\<close> as the value of \<open>PENDING\<close> and a store without keys, the first enqueue of the id
  \<open>pending\<close> writes the hash and then fails at the push, on the key of that hash: an
  attempt that failed and has changed the store. The second attempt replies
  \<open>JOB_ALREADY_EXISTS\<close>; the id has a record with status \<open>PENDING\<close> and is not on the
  \<open>PENDING\<close> list, and the enqueue of another id now fails at the push as well. With jobs
  on the \<open>RUNNING\<close> list, the first enqueue of the id \<open>running\<close> replies
  \<open>JOB_ALREADY_EXISTS\<close>, and the id has no record.
\<close>

theorem addJob_status_id:
  "status_text plain PENDING = ''pending'' \<and>
   fst (db_addJob plain no_keys ''q'' ''pending'' ''x'') = Inl WRONGTYPE \<and>
   entries (snd (db_addJob plain no_keys ''q'' ''pending'' ''x'')) (''q'', ''pending'') =
     Some (Hash \<lparr>JOB_ID = Some ''pending'', DATA = Some ''x'', STATUS = Some PENDING,
                  FAILED_REASON = None\<rparr>) \<and>
   fst (db_addJob plain (snd (db_addJob plain no_keys ''q'' ''pending'' ''x'')) ''q'' ''pending'' ''y'') =
     Inl (ReplyError (JOB_ALREADY_EXISTS plain ''pending'' ''q'')) \<and>
   id_lists plain
     (snd (db_addJob plain (snd (db_addJob plain no_keys ''q'' ''pending'' ''x'')) ''q'' ''pending'' ''y''))
     (''q'', PENDING) = [] \<and>
   fst (db_addJob plain (snd (db_addJob plain no_keys ''q'' ''pending'' ''x'')) ''q'' ''a'' ''z'') =
     Inl WRONGTYPE \<and>
   status_text plain RUNNING = ''running'' \<and>
   id_lists plain crashed_store (''q'', RUNNING) = [''c'', ''b''] \<and>
   fst (db_addJob plain crashed_store ''q'' ''running'' ''x'') =
     Inl (ReplyError (JOB_ALREADY_EXISTS plain ''running'' ''q'')) \<and>
   hashes (snd (db_addJob plain crashed_store ''q'' ''running'' ''x'')) (''q'', ''running'') = None"
  by code_simp

section \<open>The empty job id\<close>

text \<open>
  Claim C4, at a list that holds the empty string as an id. \<open>getJobs\<close> reads the reply
  of \<^verbatim>\<open>LMOVE\<close> with \<^verbatim>\<open>if (!jobId) break\<close>, which also leaves the loop on the empty
  string, after the store has moved it. With the empty id and \<open>a\<close> on the \<open>PENDING\<close>
  list and a limit of 2, the call returns no job although the list was not empty, the
  empty id is on the \<open>RUNNING\<close> list, the status in its hash is still \<open>PENDING\<close>, and \<open>a\<close>
  was not fetched.
\<close>

theorem getJobs_empty_id:
  "id_lists plain empty_id_store (''q'', PENDING) = [[], ''a''] \<and>
   fst (getJobs plain empty_id_store ''q'' PENDING (Some 2)) = Inr [] \<and>
   id_lists plain (snd (getJobs plain empty_id_store ''q'' PENDING (Some 2))) (''q'', PENDING) = [''a''] \<and>
   id_lists plain (snd (getJobs plain empty_id_store ''q'' PENDING (Some 2))) (''q'', RUNNING) = [[]] \<and>
   map_option STATUS (hashes (snd (getJobs plain empty_id_store ''q'' PENDING (Some 2))) (''q'', [])) =
     Some (Some PENDING)"
  by code_simp

section \<open>Moving a list at startup\<close>

text \<open>
  Claim C2, at a restart with the empty string among the running ids. The empty id and
  \<open>b\<close> are on the \<open>RUNNING\<close> list and \<open>a\<close> is pending. \<open>moveJobsBetweenLists\<close> returns the two
  ids and leaves them on the \<open>STALLED\<close> list in their order. The first pool request after
  \<open>startWorkerPool\<close> then moves the empty id and takes the reply for an empty list, so it
  sets the recovery flag and fetches \<open>a\<close> from the \<open>PENDING\<close> list; the second finds nothing
  pending. The two fetches have returned the pending job and no job, \<open>b\<close> is still on the
  \<open>STALLED\<close> list, and with the flag set no later request fetches from that list.
\<close>

theorem restart_with_empty_id:
  "id_lists plain empty_id_crashed (''q'', RUNNING) = [[], ''b''] \<and>
   id_lists plain empty_id_crashed (''q'', STALLED) = [] \<and>
   id_lists plain empty_id_crashed (''q'', PENDING) = [''a''] \<and>
   fst (moveJobsBetweenLists plain empty_id_crashed ''q'' RUNNING STALLED) = Inr [[], ''b''] \<and>
   id_lists plain (snd (moveJobsBetweenLists plain empty_id_crashed ''q'' RUNNING STALLED))
     (''q'', STALLED) = [[], ''b''] \<and>
   fst (fetches plain ''q'' ''w1'' (Suc (Suc 0))
          (snd (startWorkerPool plain ''q'' restarted_queue (restarted_on empty_id_crashed)))) =
     [Some [\<lparr>id' = Some ''a'', data' = ''x''\<rparr>], Some []] \<and>
   id_lists plain
     (store (snd (fetches plain ''q'' ''w1'' (Suc (Suc 0))
        (snd (startWorkerPool plain ''q'' restarted_queue (restarted_on empty_id_crashed))))))
     (''q'', STALLED) = [''b''] \<and>
   recovered ''q''
     (snd (fetches plain ''q'' ''w1'' (Suc (Suc 0))
        (snd (startWorkerPool plain ''q'' restarted_queue (restarted_on empty_id_crashed)))))"
  by code_simp

section \<open>A routine that throws\<close>

text \<open>
  Claim C7, at a job whose id is the value of a status. With \<open>failed\<close> as the value of
  \<open>FAILED\<close>, a job is enqueued under the id \<open>failed\<close> on an empty store, a worker whose
  routine throws an error with message \<open>boom\<close> is registered, and the job is fetched and
  run in the process. The chain calls \<open>failJob\<close> with the id and the message: the hash of
  the job has status \<open>FAILED\<close> and reason \<open>boom\<close>, the id is off the \<open>RUNNING\<close> list, and the
  push on the \<open>FAILED\<close> list fails on the key of the job's hash. At the end the job is on
  no list.
\<close>

theorem status_id_job_fails:
  "status_text plain FAILED = ''failed'' \<and>
   hashes (store (run plain (one_job ''failed'' (\<lambda>job. Rejected (Some ''boom''))) (new_engine no_keys)))
     (''q'', ''failed'') =
     Some \<lparr>JOB_ID = Some ''failed'', DATA = Some ''x'', STATUS = Some FAILED,
           FAILED_REASON = Some ''boom''\<rparr> \<and>
   map (\<lambda>st. id_lists plain
          (store (run plain (one_job ''failed'' (\<lambda>job. Rejected (Some ''boom''))) (new_engine no_keys)))
          (''q'', st))
     [PENDING, RUNNING, STALLED, COMPLETED, FAILED] = [[], [], [], [], []] \<and>
   trace (run plain (one_job ''failed'' (\<lambda>job. Rejected (Some ''boom''))) (new_engine no_keys)) =
     [Emit (QUEUE_ADD ''q''), Call_addJob ''q'' ''failed'', Emit (JOB_ADD ''q''),
      Call_moveJobsBetweenLists ''q'' RUNNING STALLED, Listen ''q'', Emit (WORKER_ADD ''q'' ''w1''),
      Emit (JOB_POOL_REQUEST ''q'' ''w1''), Call_getJobs ''q'' PENDING,
      Emit (JOB_POOL_PROCESS ''q'' ''w1''),
      Call_failJob ''q'' (Some ''failed'') (Some ''boom''), Emit (JOB_FAIL ''q'' (Some ''failed'')),
      Emit (JOB_POOL_REQUEST ''q'' ''w1''), Call_getJobs ''q'' PENDING]"
  by code_simp

section \<open>Completing and failing a job whose id is apart\<close>

text \<open>The three commands of \<open>completeJob\<close> and \<open>failJob\<close>, for a status other than
  \<open>RUNNING\<close>.\<close>

lemma settle_facts:
  assumes a: "lists_apart hp d q" and b: "id_apart hp d q i" and t: "T \<noteq> RUNNING"
  shows "hashes (snd (lpush (snd (lrem (snd (hset d (q, i) upd)) (q, status_text hp RUNNING) i))
                   (q, status_text hp T) i)) =
           (hashes d)((q, i) := Some (upd (case hashes d (q, i) of None \<Rightarrow> no_fields | Some h \<Rightarrow> h)))"
    and "id_lists hp (snd (lpush (snd (lrem (snd (hset d (q, i) upd)) (q, status_text hp RUNNING) i))
                   (q, status_text hp T) i)) =
           (id_lists hp d)((q, RUNNING) := remove1 i (id_lists hp d (q, RUNNING)),
                           (q, T) := i # id_lists hp d (q, T))"
    and "lists_apart hp (snd (lpush (snd (lrem (snd (hset d (q, i) upd)) (q, status_text hp RUNNING) i))
                   (q, status_text hp T) i)) q"
    and "id_apart hp (snd (lpush (snd (lrem (snd (hset d (q, i) upd)) (q, status_text hp RUNNING) i))
                   (q, status_text hp T) i)) q i"
proof -
  let ?d1 = "snd (hset d (q, i) upd)"
  let ?d2 = "snd (lrem ?d1 (q, status_text hp RUNNING) i)"
  let ?d3 = "snd (lpush ?d2 (q, status_text hp T) i)"
  note nl = id_apartD(1)[OF b]
  have ne: "i \<noteq> status_text hp st" for st by (rule id_apartD(2)[OF b])
  have h3: "hashes ?d3 =
      (hashes d)((q, i) := Some (upd (case hashes d (q, i) of None \<Rightarrow> no_fields | Some h \<Rightarrow> h)))"
    using nl by (simp add: hashes_lpush hashes_lrem hashes_hset)
  have free: "hashes ?d2 (q, status_text hp T) = None"
    using nl ne[of T] lists_apartD(1)[OF a, of T] by (simp add: hashes_lrem hashes_hset)
  have l3: "the_list ?d3 =
      (the_list d)((q, status_text hp RUNNING) := remove1 i (the_list d (q, status_text hp RUNNING)),
                   (q, status_text hp T) := i # the_list d (q, status_text hp T))"
    using free t lists_apartD(2)[OF a, of T RUNNING]
    by (simp add: list_lpush list_lrem list_hset)
  show "hashes ?d3 =
      (hashes d)((q, i) := Some (upd (case hashes d (q, i) of None \<Rightarrow> no_fields | Some h \<Rightarrow> h)))"
    by (rule h3)
  show "id_lists hp ?d3 =
           (id_lists hp d)((q, RUNNING) := remove1 i (id_lists hp d (q, RUNNING)),
                           (q, T) := i # id_lists hp d (q, T))"
    using lists_apartD(2)[OF a]
    by (auto simp add: fun_eq_iff id_lists_def l3)
  show "lists_apart hp ?d3 q"
  proof -
    have "hashes ?d3 (q, status_text hp st) = None" for st
      using ne[of st] lists_apartD(1)[OF a, of st] by (simp add: h3)
    then show ?thesis using a by (simp add: lists_apart_def list_all_iff)
  qed
  show "id_apart hp ?d3 q i"
    using b ne by (simp add: id_apart_def holds_list_lpush holds_list_lrem holds_list_hset)
qed

text \<open>
  For an id that is not the value of a status and whose key holds no list, in a store
  where the statuses have different values and no key of a list of the queue holds a
  hash: \<open>completeJob\<close> and \<open>failJob\<close> write the status (and the reason) into the hash of the
  id, creating it from no fields when it is absent, remove the first occurrence of the id
  from the \<open>RUNNING\<close> list, which shortens it by at most one, and push the id on the
  \<open>COMPLETED\<close> (\<open>FAILED\<close>) list; nothing else changes. This holds also for an id with no
  hash and an id that is not on the \<open>RUNNING\<close> list. Completing the same id twice puts it
  on the \<open>COMPLETED\<close> list twice.
\<close>

theorem completeJob_failJob_apart:
  "lists_apart hp d q \<Longrightarrow> id_apart hp d q i \<Longrightarrow>
   hashes (completeJob hp d q (Some i)) =
     (hashes d)((q, i) := Some ((case hashes d (q, i) of None \<Rightarrow> no_fields | Some h \<Rightarrow> h)
        \<lparr>STATUS := Some COMPLETED\<rparr>)) \<and>
   id_lists hp (completeJob hp d q (Some i)) =
     (id_lists hp d)((q, RUNNING) := remove1 i (id_lists hp d (q, RUNNING)),
                     (q, COMPLETED) := i # id_lists hp d (q, COMPLETED)) \<and>
   hashes (failJob hp d q (Some i) (Some r)) =
     (hashes d)((q, i) := Some ((case hashes d (q, i) of None \<Rightarrow> no_fields | Some h \<Rightarrow> h)
        \<lparr>STATUS := Some FAILED, FAILED_REASON := Some r\<rparr>)) \<and>
   id_lists hp (failJob hp d q (Some i) (Some r)) =
     (id_lists hp d)((q, RUNNING) := remove1 i (id_lists hp d (q, RUNNING)),
                     (q, FAILED) := i # id_lists hp d (q, FAILED)) \<and>
   length (id_lists hp d (q, RUNNING)) \<le> Suc (length (id_lists hp (completeJob hp d q (Some i)) (q, RUNNING))) \<and>
   length (id_lists hp d (q, RUNNING)) \<le> Suc (length (id_lists hp (failJob hp d q (Some i) (Some r)) (q, RUNNING))) \<and>
   id_lists hp (completeJob hp (completeJob hp d q (Some i)) q (Some i)) (q, COMPLETED) =
     i # i # id_lists hp d (q, COMPLETED) \<and>
   count_list (id_lists hp (completeJob hp (completeJob hp d q (Some i)) q (Some i)) (q, COMPLETED)) i =
     count_list (id_lists hp d (q, COMPLETED)) i + 2"
proof -
  assume a: "lists_apart hp d q" and b: "id_apart hp d q i"
  have len: "length xs \<le> Suc (length (remove1 i xs))" for xs :: "string list"
    by (induction xs) auto
  have c: "completeJob hp d' q (Some i) =
      snd (lpush (snd (lrem (snd (hset d' (q, i) (\<lambda>h. h\<lparr>STATUS := Some COMPLETED\<rparr>)))
             (q, status_text hp RUNNING) i)) (q, status_text hp COMPLETED) i)" for d'
    by (simp add: completeJob_def key_text_def arg_text_def)
  have f: "failJob hp d q (Some i) (Some r) =
      snd (lpush (snd (lrem (snd (hset d (q, i) (\<lambda>h. h\<lparr>STATUS := Some FAILED, FAILED_REASON := Some r\<rparr>)))
             (q, status_text hp RUNNING) i)) (q, status_text hp FAILED) i)"
    by (simp add: failJob_def key_text_def arg_text_def)
  note c1 = settle_facts[OF a b, of COMPLETED "\<lambda>h. h\<lparr>STATUS := Some COMPLETED\<rparr>", folded c]
  note f1 = settle_facts[OF a b, of FAILED "\<lambda>h. h\<lparr>STATUS := Some FAILED, FAILED_REASON := Some r\<rparr>", folded f]
  have c2: "id_lists hp (completeJob hp (completeJob hp d q (Some i)) q (Some i)) =
      (id_lists hp (completeJob hp d q (Some i)))
        ((q, RUNNING) := remove1 i (id_lists hp (completeJob hp d q (Some i)) (q, RUNNING)),
         (q, COMPLETED) := i # id_lists hp (completeJob hp d q (Some i)) (q, COMPLETED))"
    using settle_facts(2)[OF c1(3) c1(4), of COMPLETED "\<lambda>h. h\<lparr>STATUS := Some COMPLETED\<rparr>", folded c]
    by simp
  show ?thesis
    using c1(1,2) f1(1,2) by (simp add: c2 len)
qed

theorem completeJob_failJob_apart_witness:
  "map_option STATUS (hashes (completeJob plain crashed_store ''q'' (Some ''c'')) (''q'', ''c'')) =
     Some (Some COMPLETED) \<and>
   id_lists plain (completeJob plain crashed_store ''q'' (Some ''c'')) (''q'', RUNNING) = [''b''] \<and>
   id_lists plain (completeJob plain crashed_store ''q'' (Some ''c'')) (''q'', COMPLETED) = [''c''] \<and>
   id_lists plain (completeJob plain (completeJob plain crashed_store ''q'' (Some ''c'')) ''q'' (Some ''c''))
     (''q'', COMPLETED) = [''c'', ''c'']"
proof -
  have h: "lists_apart plain crashed_store ''q''" "id_apart plain crashed_store ''q'' ''c''"
    "id_lists plain crashed_store (''q'', RUNNING) = [''c'', ''b'']"
    "id_lists plain crashed_store (''q'', COMPLETED) = []"
    "map_option STATUS (hashes crashed_store (''q'', ''c'')) = Some (Some RUNNING)"
    by code_simp+
  from completeJob_failJob_apart[OF h(1,2), of "''r''"] h(3,4,5) show ?thesis
    by (auto split: option.splits)
qed

section \<open>Enqueuing an id that is apart\<close>

lemma exists_cmd_cases: "exists_cmd d k = (hashes d k \<noteq> None \<or> holds_list d k)"
  by (simp add: exists_cmd_def hashes_def holds_list_def split: option.splits entry.splits)

lemma lpush_free:
  "hashes d k = None \<Longrightarrow> lpush d k v = (Inr (), put_list d k (v # the_list d k))"
  by (simp add: lpush_def list_at_cases)

text \<open>
  For an id that is not the value of a status and whose key holds no list, with a
  message and a value of \<open>PENDING\<close> that stand for themselves in the script, in a store
  where the statuses have different values and no key of a list of the queue holds a
  hash: enqueue the id twice. The second call replies \<open>JOB_ALREADY_EXISTS\<close> and leaves the
  store as the first call left it, and the id has a hash. A first call that failed
  replied the same and changed nothing either. When the id had no hash before, the
  first call succeeds, the hash holds the id, the payload of the first call and status
  \<open>PENDING\<close>, and the id was pushed once; when it was not on the \<open>PENDING\<close> list before,
  it is there exactly once. Check and write are the single function \<open>db_addJob\<close>, one
  evaluation of the script.
\<close>

theorem addJob_twice:
  "lua_plain (JOB_ALREADY_EXISTS hp i q) \<Longrightarrow> lua_plain (status_text hp PENDING) \<Longrightarrow>
   lists_apart hp d q \<Longrightarrow> id_apart hp d q i \<Longrightarrow>
   db_addJob hp d q i x = (r1, d1) \<Longrightarrow> db_addJob hp d1 q i y = (r2, d2) \<Longrightarrow>
     r2 = Inl (ReplyError (JOB_ALREADY_EXISTS hp i q)) \<and> d2 = d1 \<and>
     (\<exists>h. hashes d2 (q, i) = Some h) \<and>
     (r1 \<noteq> Inr () \<longrightarrow> r1 = Inl (ReplyError (JOB_ALREADY_EXISTS hp i q)) \<and> d1 = d) \<and>
     (hashes d (q, i) = None \<longrightarrow>
        r1 = Inr () \<and>
        hashes d2 = (hashes d)((q, i) := Some \<lparr>JOB_ID = Some i, DATA = Some x,
                                                 STATUS = Some PENDING, FAILED_REASON = None\<rparr>) \<and>
        id_lists hp d2 = (id_lists hp d)((q, PENDING) := i # id_lists hp d (q, PENDING))) \<and>
     (hashes d (q, i) = None \<and> i \<notin> set (id_lists hp d (q, PENDING)) \<longrightarrow>
        count_list (id_lists hp d2 (q, PENDING)) i = 1)"
proof -
  assume lp: "lua_plain (JOB_ALREADY_EXISTS hp i q)" "lua_plain (status_text hp PENDING)"
    and a: "lists_apart hp d q" and b: "id_apart hp d q i"
    and e1: "db_addJob hp d q i x = (r1, d1)" and e2: "db_addJob hp d1 q i y = (r2, d2)"
  let ?m = "Inl (ReplyError (JOB_ALREADY_EXISTS hp i q)) :: error + unit"
  note nl = id_apartD(1)[OF b]
  have known: "db_addJob hp d' q i z = (?m, d')" if "hashes d' (q, i) \<noteq> None" for d' z
    using that lp by (simp add: db_addJob_def exists_cmd_cases)
  show ?thesis
  proof (cases "hashes d (q, i)")
    case (Some h)
    then have "db_addJob hp d q i x = (?m, d)" by (simp add: known)
    with e1 have r1: "r1 = ?m" "d1 = d" by simp_all
    from Some r1 have "db_addJob hp d1 q i y = (?m, d1)" by (simp add: known)
    with e2 have r2: "r2 = ?m" "d2 = d1" by simp_all
    show ?thesis using Some r1 r2 by simp
  next
    case None
    let ?u = "\<lambda>h. h\<lparr>JOB_ID := Some i, STATUS := Some PENDING, DATA := Some x\<rparr>"
    let ?d' = "snd (hset d (q, i) ?u)"
    let ?kp = "(q, status_text hp PENDING)"
    have f: "fst (hset d (q, i) ?u) = Inr ()" using nl by (simp add: fst_hset)
    have h': "hashes ?d' = (hashes d)((q, i) := Some \<lparr>JOB_ID = Some i, DATA = Some x,
                                                 STATUS = Some PENDING, FAILED_REASON = None\<rparr>)"
      using nl None by (simp add: hashes_hset no_fields_def)
    have free: "hashes ?d' ?kp = None"
      using lists_apartD(1)[OF a, of PENDING] id_apartD(2)[OF b, of PENDING] by (simp add: h')
    have "db_addJob hp d q i x = lpush ?d' ?kp i"
      using lp nl None f by (simp add: db_addJob_def exists_cmd_cases case_prod_beta)
    also have "\<dots> = (Inr (), put_list ?d' ?kp (i # the_list ?d' ?kp))"
      by (rule lpush_free[OF free])
    finally have first: "db_addJob hp d q i x = (Inr (), put_list ?d' ?kp (i # the_list d ?kp))"
      by (simp add: list_hset)
    with e1 have r1: "r1 = Inr ()" and d1: "d1 = put_list ?d' ?kp (i # the_list d ?kp)" by simp_all
    have h1: "hashes d1 = (hashes d)((q, i) := Some \<lparr>JOB_ID = Some i, DATA = Some x,
                                                 STATUS = Some PENDING, FAILED_REASON = None\<rparr>)"
      using free by (simp add: d1 hashes_put_list h')
    have l1: "id_lists hp d1 = (id_lists hp d)((q, PENDING) := i # id_lists hp d (q, PENDING))"
      using lists_apartD(2)[OF a]
      by (auto simp add: fun_eq_iff id_lists_def d1 list_put_list list_hset)
    have "db_addJob hp d1 q i y = (?m, d1)" by (rule known) (simp add: h1)
    with e2 have r2: "r2 = ?m" "d2 = d1" by simp_all
    have one: "count_list (id_lists hp d1 (q, PENDING)) i = 1" if "i \<notin> set (id_lists hp d (q, PENDING))"
      using that by (simp add: l1 count_list_0_iff)
    show ?thesis using None r1 r2 h1 l1 one by simp
  qed
qed

theorem addJob_twice_witness:
  "fst (db_addJob plain (snd (db_addJob plain no_keys ''q'' ''a'' ''x'')) ''q'' ''a'' ''y'') =
     Inl (ReplyError (JOB_ALREADY_EXISTS plain ''a'' ''q'')) \<and>
   snd (db_addJob plain (snd (db_addJob plain no_keys ''q'' ''a'' ''x'')) ''q'' ''a'' ''y'') =
     snd (db_addJob plain no_keys ''q'' ''a'' ''x'') \<and>
   count_list (id_lists plain (snd (db_addJob plain (snd (db_addJob plain no_keys ''q'' ''a'' ''x'')) ''q'' ''a'' ''y''))
     (''q'', PENDING)) ''a'' = 1"
proof -
  obtain r1 d1 where h1: "db_addJob plain no_keys ''q'' ''a'' ''x'' = (r1, d1)"
    by (cases "db_addJob plain no_keys ''q'' ''a'' ''x''")
  obtain r2 d2 where h2: "db_addJob plain d1 ''q'' ''a'' ''y'' = (r2, d2)"
    by (cases "db_addJob plain d1 ''q'' ''a'' ''y''")
  have fresh: "lua_plain (JOB_ALREADY_EXISTS plain ''a'' ''q'')" "lua_plain (status_text plain PENDING)"
    "lists_apart plain no_keys ''q''" "id_apart plain no_keys ''q'' ''a''"
    "hashes no_keys (''q'', ''a'') = None" "''a'' \<notin> set (id_lists plain no_keys (''q'', PENDING))"
    by code_simp+
  from addJob_twice[OF fresh(1-4) h1 h2] fresh(5,6) show ?thesis
    by (auto simp add: h1 h2)
qed

section \<open>Registering a queue\<close>

text \<open>
  Claim C6. \<open>start\<close> raises \<open>Queue db is required\<close> when the queue brings no store
  connection, and \<open>ALREADY_EXISTS\<close> when its name is registered (the connection is tested
  first, so a queue with neither raises the former). Whenever it raises, the engine,
  and with it the map of queues, is what it was. Otherwise it returns, the map has a new
  entry for the name, with no workers, no idle worker and the recovery flag unset, and
  the queue-added event is emitted.
\<close>

theorem start_raises_or_registers:
  "(db queue0 = None \<longrightarrow> start queue0 s = (Inl (Error ''Queue db is required''), s)) \<and>
   (db queue0 \<noteq> None \<and> queues s (name queue0) \<noteq> None \<longrightarrow>
      start queue0 s = (Inl (ALREADY_EXISTS QUEUE (name queue0)), s)) \<and>
   (db queue0 = None \<or> queues s (name queue0) \<noteq> None \<longrightarrow>
      (\<exists>e. fst (start queue0 s) = Inl e) \<and> snd (start queue0 s) = s) \<and>
   (db queue0 \<noteq> None \<and> queues s (name queue0) = None \<longrightarrow>
      fst (start queue0 s) = Inr () \<and>
      queues (snd (start queue0 s)) =
        (queues s)(name queue0 := Some \<lparr>queue = queue0, workers = [], idleWorkerId = [],
                                          isStalledJobsProcessingComplete = False\<rparr>) \<and>
      store (snd (start queue0 s)) = store s \<and>
      trace (snd (start queue0 s)) = trace s @ [Emit (QUEUE_ADD (name queue0))])"
  by (auto simp add: start_def checkExisting_def log_def split: option.splits)

theorem start_raises_or_registers_witness:
  "start \<lparr>name = ''q'', db = None\<rparr> (new_engine no_keys) =
     (Inl (Error ''Queue db is required''), new_engine no_keys) \<and>
   fst (start \<lparr>name = ''q'', db = Some 0\<rparr> (new_engine no_keys)) = Inr () \<and>
   queues (snd (start \<lparr>name = ''q'', db = Some 0\<rparr> (new_engine no_keys))) ''q'' =
     Some \<lparr>queue = \<lparr>name = ''q'', db = Some 0\<rparr>, workers = [], idleWorkerId = [],
           isStalledJobsProcessingComplete = False\<rparr> \<and>
   start \<lparr>name = ''q'', db = Some 1\<rparr> (snd (start \<lparr>name = ''q'', db = Some 0\<rparr> (new_engine no_keys))) =
     (Inl (ALREADY_EXISTS QUEUE ''q''), snd (start \<lparr>name = ''q'', db = Some 0\<rparr> (new_engine no_keys)))"
proof -
  have fresh: "queues (new_engine no_keys) ''q'' = None"
    by (simp add: new_engine_def)
  have first: "queues (snd (start \<lparr>name = ''q'', db = Some 0\<rparr> (new_engine no_keys))) ''q'' =
     Some \<lparr>queue = \<lparr>name = ''q'', db = Some 0\<rparr>, workers = [], idleWorkerId = [],
           isStalledJobsProcessingComplete = False\<rparr>"
    using start_raises_or_registers[of "\<lparr>name = ''q'', db = Some 0\<rparr>" "new_engine no_keys"] fresh
    by simp
  show ?thesis
    using start_raises_or_registers[of "\<lparr>name = ''q'', db = None\<rparr>" "new_engine no_keys"]
      start_raises_or_registers[of "\<lparr>name = ''q'', db = Some 0\<rparr>" "new_engine no_keys"]
      start_raises_or_registers[of "\<lparr>name = ''q'', db = Some 1\<rparr>"
        "snd (start \<lparr>name = ''q'', db = Some 0\<rparr> (new_engine no_keys))"]
      fresh first
    by simp
qed

section \<open>What the handlers keep\<close>

lemma store_log: "store (log e s) = store s"
  by (simp add: log_def)

lemma store_upd_queue: "store (upd_queue q f s) = store s"
  by (simp add: upd_queue_def split: option.splits)

lemma store_upd_worker: "store (upd_worker q w f s) = store s"
  by (simp add: upd_worker_def store_upd_queue)
















text \<open>The pool request of a registered queue and worker, case by case: by the flag and
  by the reply of the fetch from the \<open>STALLED\<close> list.\<close>

lemma fetch_recovered:
  assumes "queues s q = Some qv" "map_of (workers qv) w = Some wd"
    "isStalledJobsProcessingComplete qv"
  shows "onJobsRequest_fetch hp q w s =
     (case fst (getJobs hp (store s) q PENDING None) of Inl e \<Rightarrow> None | Inr fetched \<Rightarrow> Some fetched,
      log (Call_getJobs q PENDING) (s\<lparr>store := snd (getJobs hp (store s) q PENDING None)\<rparr>))"
proof -
  obtain r d where g: "getJobs hp (store s) q PENDING None = (r, d)"
    by (cases "getJobs hp (store s) q PENDING None")
  show ?thesis using assms by (cases r) (simp_all add: onJobsRequest_fetch_def g)
qed

lemma fetch_stalled_throws:
  assumes "queues s q = Some qv" "map_of (workers qv) w = Some wd"
    "\<not> isStalledJobsProcessingComplete qv" "fst (getJobs hp (store s) q STALLED None) = Inl e"
  shows "onJobsRequest_fetch hp q w s =
     (None, log (Call_getJobs q STALLED) (s\<lparr>store := snd (getJobs hp (store s) q STALLED None)\<rparr>))"
proof -
  obtain r d where g: "getJobs hp (store s) q STALLED None = (r, d)"
    by (cases "getJobs hp (store s) q STALLED None")
  with assms(4) have r: "r = Inl e" by simp
  show ?thesis using assms(1-3) by (simp add: onJobsRequest_fetch_def g r)
qed

lemma fetch_stalled_jobs:
  assumes "queues s q = Some qv" "map_of (workers qv) w = Some wd"
    "\<not> isStalledJobsProcessingComplete qv" "fst (getJobs hp (store s) q STALLED None) = Inr fetched"
    "fetched \<noteq> []"
  shows "onJobsRequest_fetch hp q w s =
     (Some fetched,
      log (Call_getJobs q STALLED) (s\<lparr>store := snd (getJobs hp (store s) q STALLED None)\<rparr>))"
proof -
  obtain r d where g: "getJobs hp (store s) q STALLED None = (r, d)"
    by (cases "getJobs hp (store s) q STALLED None")
  with assms(4) have r: "r = Inr fetched" by simp
  show ?thesis using assms(1-3,5) by (simp add: onJobsRequest_fetch_def g r)
qed

lemma fetch_stalled_empty:
  assumes "queues s q = Some qv" "map_of (workers qv) w = Some wd"
    "\<not> isStalledJobsProcessingComplete qv" "fst (getJobs hp (store s) q STALLED None) = Inr []"
  shows "onJobsRequest_fetch hp q w s =
     (case fst (getJobs hp (snd (getJobs hp (store s) q STALLED None)) q PENDING None) of
        Inl e \<Rightarrow> None | Inr fetched \<Rightarrow> Some fetched,
      log (Call_getJobs q PENDING)
        ((upd_queue q (\<lambda>qv. qv\<lparr>isStalledJobsProcessingComplete := True\<rparr>)
            (log (Call_getJobs q STALLED) (s\<lparr>store := snd (getJobs hp (store s) q STALLED None)\<rparr>)))
         \<lparr>store := snd (getJobs hp (snd (getJobs hp (store s) q STALLED None)) q PENDING None)\<rparr>))"
proof -
  obtain r d where g: "getJobs hp (store s) q STALLED None = (r, d)"
    by (cases "getJobs hp (store s) q STALLED None")
  with assms(4) have r: "r = Inr []" by simp
  obtain r2 d2 where g2: "getJobs hp d q PENDING None = (r2, d2)"
    by (cases "getJobs hp d q PENDING None")
  show ?thesis using assms(1-3)
    by (cases r2) (simp_all add: onJobsRequest_fetch_def g r g2 store_log store_upd_queue)
qed
















section \<open>The recovery flag\<close>















section \<open>Fetching with the default limit\<close>

lemma lmove_cases:
  assumes "lmove d src dst = (r, d1)"
  shows "(r = Inl WRONGTYPE \<and> d1 = d) \<or>
     (r = Inr None \<and> d1 = d \<and> the_list d src = []) \<or>
     (\<exists>v rest. r = Inr (Some v) \<and> d1 = snd (lmove d src dst) \<and> the_list d src = v # rest \<and>
        hashes d dst = None)"
proof (cases "hashes d src = None")
  case False
  then show ?thesis using assms by (auto simp add: lmove_def list_at_cases)
next
  case True
  show ?thesis
  proof (cases "the_list d src")
    case Nil
    then show ?thesis using assms True by (auto simp add: lmove_def list_at_cases)
  next
    case (Cons v rest)
    then show ?thesis using assms True
      by (cases "hashes d dst = None") (auto simp add: lmove_def list_at_cases)
  qed
qed

lemma lmove_length:
  "length (the_list (snd (lmove d src dst)) dst) \<le> Suc (length (the_list d dst))"
proof -
  obtain r d1 where m: "lmove d src dst = (r, d1)" by (cases "lmove d src dst")
  from lmove_cases[OF m] show ?thesis
  proof (elim disjE conjE exE)
    fix v rest
    assume l: "the_list d src = v # rest" and h: "hashes d dst = None"
    from lmove_Cons(2)[OF l h] l show ?thesis by (cases "src = dst") auto
  qed (simp_all add: m)
qed

text \<open>A call without a limit is one round of the loop.\<close>

lemma getJobs_default:
  "getJobs hp d q from None =
     (case lmove d (q, status_text hp from) (q, status_text hp RUNNING) of
        (Inl e, d1) \<Rightarrow> (Inl e, d1)
      | (Inr None, d1) \<Rightarrow> (Inr [], d1)
      | (Inr (Some v), d1) \<Rightarrow>
          if v = [] then (Inr [], d1)
          else (jobs_of [read_job hp d1 q v],
                snd (hset d1 (q, v) (\<lambda>h. h\<lparr>STATUS := Some RUNNING\<rparr>))))"
  by (simp add: getJobs_def split: prod.splits sum.splits option.splits)

lemma getJobs_default_store:
  "snd (getJobs hp d q from None) = snd (lmove d (q, status_text hp from) (q, status_text hp RUNNING)) \<or>
   (\<exists>v. v \<noteq> [] \<and> fst (lmove d (q, status_text hp from) (q, status_text hp RUNNING)) = Inr (Some v) \<and>
        snd (getJobs hp d q from None) =
          snd (hset (snd (lmove d (q, status_text hp from) (q, status_text hp RUNNING))) (q, v)
                 (\<lambda>h. h\<lparr>STATUS := Some RUNNING\<rparr>)))"
  by (auto simp add: getJobs_default split: prod.splits sum.splits option.splits)

lemma getJobs_default_one:
  "fst (getJobs hp d q from None) = Inr fetched \<Longrightarrow> length fetched \<le> 1"
  by (auto simp add: getJobs_default split: prod.splits sum.splits option.splits if_splits)

lemma getJobs_default_running:
  "length (id_lists hp (snd (getJobs hp d q from None)) (q, RUNNING)) \<le>
     Suc (length (id_lists hp d (q, RUNNING)))"
  using getJobs_default_store[of hp d q "from"]
    lmove_length[of d "(q, status_text hp from)" "(q, status_text hp RUNNING)"]
  by (auto simp add: id_lists_def list_hset)

lemma getJobs_default_nothing:
  assumes "fst (getJobs hp d q from None) = Inr []" "[] \<notin> set (take 1 (id_lists hp d (q, from)))"
  shows "snd (getJobs hp d q from None) = d"
proof -
  obtain r d1 where m: "lmove d (q, status_text hp from) (q, status_text hp RUNNING) = (r, d1)"
    by (cases "lmove d (q, status_text hp from) (q, status_text hp RUNNING)")
  from lmove_cases[OF m] show ?thesis
  proof (elim disjE conjE exE)
    fix v rest
    assume v: "r = Inr (Some v)" "the_list d (q, status_text hp from) = v # rest"
    with assms(2) have "v \<noteq> []" by (auto simp add: id_lists_def)
    with assms(1) v(1) show ?thesis
      by (simp add: getJobs_default m split: sum.splits)
  qed (simp_all add: getJobs_default m)
qed

section \<open>The fetch limit, apart from the empty id\<close>

lemma fetch_store:
  "store (snd (onJobsRequest_fetch hp q w s)) = store s \<or>
   store (snd (onJobsRequest_fetch hp q w s)) = snd (getJobs hp (store s) q PENDING None) \<or>
   store (snd (onJobsRequest_fetch hp q w s)) = snd (getJobs hp (store s) q STALLED None) \<and>
     fst (getJobs hp (store s) q STALLED None) \<noteq> Inr [] \<or>
   store (snd (onJobsRequest_fetch hp q w s)) =
     snd (getJobs hp (snd (getJobs hp (store s) q STALLED None)) q PENDING None) \<and>
     fst (getJobs hp (store s) q STALLED None) = Inr []"
proof (cases "queues s q")
  case None
  then show ?thesis by (simp add: onJobsRequest_fetch_def)
next
  case (Some qv)
  show ?thesis
  proof (cases "map_of (workers qv) w")
    case None
    then show ?thesis using Some by (simp add: onJobsRequest_fetch_def)
  next
    case (Some wd)
    note qv = \<open>queues s q = Some qv\<close>
    show ?thesis
    proof (cases "isStalledJobsProcessingComplete qv")
      case True
      show ?thesis by (simp add: fetch_recovered[OF qv Some True] store_log)
    next
      case False
      show ?thesis
      proof (cases "fst (getJobs hp (store s) q STALLED None)")
        case (Inl e)
        show ?thesis by (simp add: fetch_stalled_throws[OF qv Some False Inl] store_log Inl)
      next
        case (Inr fetched)
        show ?thesis
        proof (cases "fetched = []")
          case True
          with Inr have g: "fst (getJobs hp (store s) q STALLED None) = Inr []" by simp
          show ?thesis by (simp add: fetch_stalled_empty[OF qv Some False g] store_log g)
        next
          case nonempty: False
          show ?thesis
            using nonempty by (simp add: fetch_stalled_jobs[OF qv Some False Inr nonempty] store_log Inr)
        qed
      qed
    qed
  qed
qed

lemma fetch_one:
  assumes "fst (onJobsRequest_fetch hp q w s) = Some fetched"
  shows "length fetched \<le> 1"
proof (cases "queues s q")
  case None
  then show ?thesis using assms by (simp add: onJobsRequest_fetch_def)
next
  case (Some qv)
  show ?thesis
  proof (cases "map_of (workers qv) w")
    case None
    then show ?thesis using Some assms by (simp add: onJobsRequest_fetch_def)
  next
    case (Some wd)
    note qv = \<open>queues s q = Some qv\<close>
    show ?thesis
    proof (cases "isStalledJobsProcessingComplete qv")
      case True
      show ?thesis
        using assms getJobs_default_one[of hp "store s" q PENDING]
        by (auto simp add: fetch_recovered[OF qv Some True] split: sum.splits)
    next
      case False
      show ?thesis
      proof (cases "fst (getJobs hp (store s) q STALLED None)")
        case (Inl e)
        show ?thesis using assms by (simp add: fetch_stalled_throws[OF qv Some False Inl])
      next
        case (Inr got)
        show ?thesis
        proof (cases "got = []")
          case True
          with Inr have g: "fst (getJobs hp (store s) q STALLED None) = Inr []" by simp
          show ?thesis
            using assms getJobs_default_one[of hp "snd (getJobs hp (store s) q STALLED None)" q PENDING]
            by (auto simp add: fetch_stalled_empty[OF qv Some False g] split: sum.splits)
        next
          case nonempty: False
          show ?thesis
            using assms getJobs_default_one[OF Inr]
            by (simp add: fetch_stalled_jobs[OF qv Some False Inr nonempty])
        qed
      qed
    qed
  qed
qed

text \<open>
  The handler calls \<open>getJobs\<close> without a limit. Such a call returns at most one job and
  lengthens the \<open>RUNNING\<close> list by at most one id. A pool request hands at most one job
  to the worker, and the \<^verbatim>\<open>push\<close> appends exactly the jobs fetched to the batch of a
  registered worker. When the head of the \<open>STALLED\<close> list is not the empty id, the
  request lengthens the \<open>RUNNING\<close> list by at most one id.
\<close>

theorem request_fetches_one:
  "(fst (getJobs hp d q from None) = Inr jobs0 \<longrightarrow> length jobs0 \<le> 1) \<and>
   length (id_lists hp (snd (getJobs hp d q from None)) (q, RUNNING)) \<le>
     Suc (length (id_lists hp d (q, RUNNING))) \<and>
   (fst (onJobsRequest_fetch hp q w s) = Some fetched \<longrightarrow> length fetched \<le> 1) \<and>
   ([] \<notin> set (take 1 (id_lists hp (store s) (q, STALLED))) \<longrightarrow>
      length (id_lists hp (store (snd (onJobsRequest_fetch hp q w s))) (q, RUNNING)) \<le>
        Suc (length (id_lists hp (store s) (q, RUNNING)))) \<and>
   worker_jobs q w (onJobsRequest_push q w fetched s) =
     (if worker_status q w s = None then [] else worker_jobs q w s @ fetched)"
proof -
  have f2: "length (id_lists hp (store (snd (onJobsRequest_fetch hp q w s))) (q, RUNNING)) \<le>
        Suc (length (id_lists hp (store s) (q, RUNNING)))"
    if h: "[] \<notin> set (take 1 (id_lists hp (store s) (q, STALLED)))"
  proof -
    let ?g = "getJobs hp (store s) q STALLED None"
    from fetch_store[of hp q w s] show ?thesis
    proof (elim disjE conjE)
      assume "store (snd (onJobsRequest_fetch hp q w s)) = store s"
      then show ?thesis by simp
    next
      assume "store (snd (onJobsRequest_fetch hp q w s)) = snd (getJobs hp (store s) q PENDING None)"
      then show ?thesis using getJobs_default_running[of hp "store s" q PENDING] by simp
    next
      assume "store (snd (onJobsRequest_fetch hp q w s)) = snd ?g"
      then show ?thesis using getJobs_default_running[of hp "store s" q STALLED] by simp
    next
      assume e: "store (snd (onJobsRequest_fetch hp q w s)) = snd (getJobs hp (snd ?g) q PENDING None)"
        "fst ?g = Inr []"
      from getJobs_default_nothing[OF e(2) h] getJobs_default_running[of hp "store s" q PENDING]
      show ?thesis by (simp add: e(1))
    qed
  qed
  have wj: "worker_jobs q w (onJobsRequest_push q w fetched s) =
     (if worker_status q w s = None then [] else worker_jobs q w s @ fetched)"
    by (auto simp add: worker_jobs_def worker_status_def onJobsRequest_push_def upd_worker_def
        upd_queue_def update_conv' split: option.splits)
  show ?thesis
    using getJobs_default_one[of hp d q "from" jobs0] getJobs_default_running[of hp d q "from"]
      fetch_one[of hp q w s fetched] f2 wj
    by blast
qed

theorem request_fetches_one_witness:
  "length (id_lists plain (store (snd (onJobsRequest_fetch plain ''q'' ''w1'' restarted))) (''q'', RUNNING)) \<le>
     Suc (length (id_lists plain (store restarted) (''q'', RUNNING)))"
proof -
  have h: "[] \<notin> set (take 1 (id_lists plain (store restarted) (''q'', STALLED)))"
    by code_simp
  from request_fetches_one[of plain "store restarted" "''q''" PENDING "[]" "''w1''" restarted "[]"] h
  show ?thesis by blast
qed

section \<open>Fetching ids that are apart\<close>

lemma pop_ids_apart:
  "hashes d (q, status_text hp from) = None \<Longrightarrow> hashes d (q, status_text hp RUNNING) = None \<Longrightarrow>
   status_text hp from \<noteq> status_text hp RUNNING \<Longrightarrow>
   the_list d (q, status_text hp from) = xs \<Longrightarrow> [] \<notin> set (take n xs) \<Longrightarrow>
     fst (pop_ids hp d q from n acc) = Inr (acc @ take n xs) \<and>
     hashes (snd (pop_ids hp d q from n acc)) = hashes d \<and>
     the_list (snd (pop_ids hp d q from n acc)) =
       (the_list d)((q, status_text hp from) := drop n xs,
                    (q, status_text hp RUNNING) := the_list d (q, status_text hp RUNNING) @ take n xs) \<and>
     (\<forall>k. k \<noteq> (q, status_text hp from) \<longrightarrow> k \<noteq> (q, status_text hp RUNNING) \<longrightarrow>
          holds_list (snd (pop_ids hp d q from n acc)) k = holds_list d k)"
proof (induction n arbitrary: d xs acc)
  case 0
  then show ?case by auto
next
  case (Suc n)
  let ?src = "(q, status_text hp from)"
  let ?dst = "(q, status_text hp RUNNING)"
  have ne: "?src \<noteq> ?dst" using Suc.prems(3) by simp
  show ?case
  proof (cases xs)
    case Nil
    then have "lmove d ?src ?dst = (Inr None, d)"
      using Suc.prems(1,4) by (simp add: lmove_def list_at_cases)
    then show ?thesis using Nil Suc.prems(4) by (auto simp add: fun_eq_iff)
  next
    case (Cons v rest)
    then have l: "the_list d ?src = v # rest" and v: "v \<noteq> []" and r: "[] \<notin> set (take n rest)"
      using Suc.prems by auto
    obtain r1 d1 where m: "lmove d ?src ?dst = (r1, d1)"
      by (cases "lmove d ?src ?dst")
    from lmove_Cons[OF l Suc.prems(2)] ne
    have r1: "r1 = Inr (Some v)"
      and l1: "the_list d1 = (the_list d)(?src := rest, ?dst := the_list d ?dst @ [v])"
      by (simp_all add: m)
    have h1: "hashes d1 = hashes d" using hashes_lmove[of d ?src ?dst] by (simp add: m)
    have f1: "holds_list d1 k = holds_list d k" if "k \<noteq> ?src" "k \<noteq> ?dst" for k
      using holds_list_lmove[OF that, of d] by (simp add: m)
    have un: "pop_ids hp d q from (Suc n) acc = pop_ids hp d1 q from n (acc @ [v])"
      using v by (simp add: m r1)
    have x: "the_list d1 ?src = rest" using ne by (simp add: l1)
    have hs: "hashes d1 ?src = None" and hd: "hashes d1 ?dst = None"
      using Suc.prems(1,2) by (simp_all add: h1)
    note ih0 = Suc.IH[OF hs hd Suc.prems(3) x r, of "acc @ [v]"]
    note ih = ih0[THEN conjunct1] ih0[THEN conjunct2, THEN conjunct1]
      ih0[THEN conjunct2, THEN conjunct2, THEN conjunct1]
      ih0[THEN conjunct2, THEN conjunct2, THEN conjunct2]
    have c1: "fst (pop_ids hp d1 q from n (acc @ [v])) = Inr (acc @ take (Suc n) xs)"
      using ih(1) Cons by simp
    have c2: "hashes (snd (pop_ids hp d1 q from n (acc @ [v]))) = hashes d"
      using ih(2) h1 by simp
    have c3: "the_list (snd (pop_ids hp d1 q from n (acc @ [v]))) k =
       ((the_list d)(?src := drop (Suc n) xs, ?dst := the_list d ?dst @ take (Suc n) xs)) k" for k
      unfolding ih(3) l1 using Cons ne by simp
    have c4: "holds_list (snd (pop_ids hp d1 q from n (acc @ [v]))) k = holds_list d k"
      if "k \<noteq> ?src" "k \<noteq> ?dst" for k
      using ih(4)[rule_format, OF that] f1[OF that] by (rule trans)
    from c3 have c3': "the_list (snd (pop_ids hp d1 q from n (acc @ [v]))) =
       (the_list d)(?src := drop (Suc n) xs, ?dst := the_list d ?dst @ take (Suc n) xs)"
      by (rule ext)
    show ?thesis
      unfolding un using c1 c2 c3' c4 by blast
  qed
qed

lemma read_job_apart: "\<not> holds_list d (q, i) \<Longrightarrow> read_job hp d q i = Inr (job_at hp d q i)"
  by (simp add: read_job_def hmget_def job_at_def hashes_def holds_list_def
      split: option.splits entry.splits)

lemma jobs_of_Inr: "jobs_of (map (\<lambda>i. Inr (f i)) ids) = Inr (map f ids)"
  by (induction ids) simp_all

lemma job_at_cong:
  "map_option JOB_ID (hashes d' (q, i)) = map_option JOB_ID (hashes d (q, i)) \<Longrightarrow>
   map_option DATA (hashes d' (q, i)) = map_option DATA (hashes d (q, i)) \<Longrightarrow>
     job_at hp d' q i = job_at hp d q i"
  by (auto simp add: job_at_def split: option.splits)

lemma fold_hset_lists:
  "the_list (fold (\<lambda>jobId d. snd (hset d (q, jobId) upd)) ys d) = the_list d"
  by (induction ys arbitrary: d) (simp_all add: list_hset)

lemma fold_hset_holds:
  "holds_list (fold (\<lambda>jobId d. snd (hset d (q, jobId) upd)) ys d) = holds_list d"
  by (induction ys arbitrary: d) (simp_all add: holds_list_hset)

lemma fold_hset_status:
  "\<forall>i \<in> set ys. \<not> holds_list d (q, i) \<Longrightarrow>
   hashes (fold (\<lambda>jobId d. snd (hset d (q, jobId) (\<lambda>h. h\<lparr>STATUS := v\<rparr>))) ys d) k =
     (if k \<in> (\<lambda>jobId. (q, jobId)) ` set ys
      then Some ((case hashes d k of None \<Rightarrow> no_fields | Some h \<Rightarrow> h)\<lparr>STATUS := v\<rparr>)
      else hashes d k)"
proof (induction ys arbitrary: d)
  case Nil
  then show ?case by simp
next
  case (Cons y ys)
  let ?d1 = "snd (hset d (q, y) (\<lambda>h. h\<lparr>STATUS := v\<rparr>))"
  have "\<forall>i \<in> set ys. \<not> holds_list ?d1 (q, i)" using Cons.prems by (simp add: holds_list_hset)
  from Cons.IH[OF this] Cons.prems show ?case by (simp add: hashes_hset)
qed

text \<open>
  In a store where the statuses have different values and no key of a list of the queue
  holds a hash, on a list other than \<open>RUNNING\<close> whose first ids, as many as the limit,
  are not empty, are not the value of a status and have no list on their key, \<open>getJobs\<close>
  does what its contract says: it takes these ids off the list and appends them to the
  \<open>RUNNING\<close> list in order, returns their jobs as read from the store, writes status
  \<open>RUNNING\<close> into their hashes and changes no other hash and no other list. On an empty
  list it returns no job and the store is unchanged. No limit is the limit 1.
\<close>

theorem getJobs_apart:
  "from \<noteq> RUNNING \<Longrightarrow> lists_apart hp d q \<Longrightarrow>
   [] \<notin> set (take (nat n) (id_lists hp d (q, from))) \<Longrightarrow>
   list_all (id_apart hp d q) (take (nat n) (id_lists hp d (q, from))) \<Longrightarrow>
     fst (getJobs hp d q from (Some n)) =
       Inr (map (job_at hp d q) (take (nat n) (id_lists hp d (q, from)))) \<and>
     id_lists hp (snd (getJobs hp d q from (Some n))) =
       (id_lists hp d)((q, from) := drop (nat n) (id_lists hp d (q, from)),
                       (q, RUNNING) := id_lists hp d (q, RUNNING) @ take (nat n) (id_lists hp d (q, from))) \<and>
     (\<forall>k. hashes (snd (getJobs hp d q from (Some n))) k =
        (if k \<in> (\<lambda>jobId. (q, jobId)) ` set (take (nat n) (id_lists hp d (q, from)))
         then Some ((case hashes d k of None \<Rightarrow> no_fields | Some h \<Rightarrow> h)\<lparr>STATUS := Some RUNNING\<rparr>)
         else hashes d k)) \<and>
     (id_lists hp d (q, from) = [] \<longrightarrow> getJobs hp d q from (Some n) = (Inr [], d)) \<and>
     getJobs hp d q from None = getJobs hp d q from (Some 1)"
proof -
  assume ne: "from \<noteq> RUNNING" and a: "lists_apart hp d q"
    and nn: "[] \<notin> set (take (nat n) (id_lists hp d (q, from)))"
    and ap: "list_all (id_apart hp d q) (take (nat n) (id_lists hp d (q, from)))"
  let ?src = "(q, status_text hp from)"
  let ?dst = "(q, status_text hp RUNNING)"
  let ?xs = "the_list d ?src"
  let ?ids = "take (nat n) ?xs"
  let ?p = "pop_ids hp d q from (nat n) []"
  have xs: "id_lists hp d (q, from) = ?xs" by (simp add: id_lists_def)
  have tn: "status_text hp from \<noteq> status_text hp RUNNING"
    using ne lists_apartD(2)[OF a, of "from" RUNNING] by simp
  from pop_ids_apart[OF lists_apartD(1)[OF a] lists_apartD(1)[OF a] tn refl, of "nat n" "[]"] nn
  have p1: "fst ?p = Inr ?ids" and p2: "hashes (snd ?p) = hashes d"
    and p3: "the_list (snd ?p) = (the_list d)(?src := drop (nat n) ?xs, ?dst := the_list d ?dst @ ?ids)"
    and p4: "\<forall>k. k \<noteq> ?src \<longrightarrow> k \<noteq> ?dst \<longrightarrow> holds_list (snd ?p) k = holds_list d k"
    by (simp_all add: xs)
  obtain r db1 where p: "?p = (r, db1)" by (cases ?p)
  with p1 p2 p3 p4 have r: "r = Inr ?ids" and h1: "hashes db1 = hashes d"
    and l1: "the_list db1 = (the_list d)(?src := drop (nat n) ?xs, ?dst := the_list d ?dst @ ?ids)"
    and f1: "\<forall>k. k \<noteq> ?src \<longrightarrow> k \<noteq> ?dst \<longrightarrow> holds_list db1 k = holds_list d k"
    by simp_all
  have nl: "\<not> holds_list db1 (q, i)" if "i \<in> set ?ids" for i
  proof -
    from ap that have b: "id_apart hp d q i" by (simp add: xs list_all_iff)
    from id_apartD[OF b] f1 show ?thesis by simp
  qed
  have rj: "read_job hp db1 q i = Inr (job_at hp d q i)" if "i \<in> set ?ids" for i
    using read_job_apart[OF nl[OF that], of hp] by (simp add: job_at_def h1)
  have jobs: "jobs_of (map (read_job hp db1 q) ?ids) = Inr (map (job_at hp d q) ?ids)"
  proof -
    have "map (read_job hp db1 q) ?ids = map (\<lambda>i. Inr (job_at hp d q i)) ?ids"
      using rj by simp
    then show ?thesis by (simp only: jobs_of_Inr)
  qed
  let ?w = "fold (\<lambda>jobId d. snd (hset d (q, jobId) (\<lambda>h. h\<lparr>STATUS := Some RUNNING\<rparr>))) ?ids db1"
  have g: "getJobs hp d q from (Some n) =
      (if ?ids = [] then (Inr [], db1) else (Inr (map (job_at hp d q) ?ids), ?w))"
    by (simp add: getJobs_def p r jobs)
  have a1: "fst (getJobs hp d q from (Some n)) = Inr (map (job_at hp d q) ?ids)"
    by (simp add: g)
  have lw: "the_list (snd (getJobs hp d q from (Some n))) = the_list db1"
    by (simp add: g fold_hset_lists)
  have b1: "id_lists hp (snd (getJobs hp d q from (Some n))) =
       (id_lists hp d)((q, from) := drop (nat n) (id_lists hp d (q, from)),
                       (q, RUNNING) := id_lists hp d (q, RUNNING) @ take (nat n) (id_lists hp d (q, from)))"
    using lists_apartD(2)[OF a]
    by (auto simp add: fun_eq_iff id_lists_def lw l1)
  have c1: "hashes (snd (getJobs hp d q from (Some n))) k =
        (if k \<in> (\<lambda>jobId. (q, jobId)) ` set ?ids
         then Some ((case hashes d k of None \<Rightarrow> no_fields | Some h \<Rightarrow> h)\<lparr>STATUS := Some RUNNING\<rparr>)
         else hashes d k)" for k
  proof (cases "?ids = []")
    case True
    then have s: "set ?ids = {}" by (simp only: set_empty)
    show ?thesis unfolding s using True by (simp add: g h1)
  next
    case False
    have "\<forall>i \<in> set ?ids. \<not> holds_list db1 (q, i)" using nl by blast
    from fold_hset_status[OF this, of "Some RUNNING" k] False show ?thesis
      by (simp add: g h1)
  qed
  have e1: "getJobs hp d q from (Some n) = (Inr [], d)" if "id_lists hp d (q, from) = []"
  proof -
    from that have e: "?xs = []" by (simp add: xs)
    have "pop_ids hp d q from m [] = (Inr [], d)" for m
      using e lists_apartD(1)[OF a, of "from"]
      by (cases m) (simp_all add: lmove_def list_at_cases)
    then show ?thesis by (simp add: getJobs_def)
  qed
  have f: "getJobs hp d q from None = getJobs hp d q from (Some 1)"
    by (simp add: getJobs_def)
  show ?thesis using a1 b1 c1 e1 f by (simp add: xs)
qed

theorem getJobs_apart_witness:
  "fst (getJobs plain crashed_store ''q'' PENDING (Some 5)) = Inr [\<lparr>id' = Some ''a'', data' = ''x''\<rparr>] \<and>
   id_lists plain (snd (getJobs plain crashed_store ''q'' PENDING (Some 5))) (''q'', RUNNING) = [''c'', ''b'', ''a''] \<and>
   id_lists plain (snd (getJobs plain crashed_store ''q'' PENDING (Some 5))) (''q'', PENDING) = []"
proof -
  have h: "PENDING \<noteq> RUNNING" "lists_apart plain crashed_store ''q''"
    "[] \<notin> set (take (nat 5) (id_lists plain crashed_store (''q'', PENDING)))"
    "list_all (id_apart plain crashed_store ''q'') (take (nat 5) (id_lists plain crashed_store (''q'', PENDING)))"
    by code_simp+
  have j: "id_lists plain crashed_store (''q'', PENDING) = [''a'']"
    "id_lists plain crashed_store (''q'', RUNNING) = [''c'', ''b'']"
    "job_at plain crashed_store ''q'' ''a'' = \<lparr>id' = Some ''a'', data' = ''x''\<rparr>"
    by code_simp+
  from getJobs_apart[OF h] show ?thesis
    by (simp add: j)
qed

section \<open>Moving ids that are apart\<close>

lemma move_fold_apart:
  "src \<noteq> dst \<Longrightarrow> hashes d src = None \<Longrightarrow> hashes d dst = None \<Longrightarrow> the_list d src = ys \<Longrightarrow>
   \<forall>i \<in> set ys. \<not> holds_list d (q, i) \<and> (q, i) \<noteq> src \<and> (q, i) \<noteq> dst \<Longrightarrow>
     the_list (fold (\<lambda>jobId d. snd (hset (snd (lmove d src dst)) (q, jobId) (\<lambda>h. h\<lparr>STATUS := v\<rparr>))) ys d) =
       (the_list d)(src := [], dst := the_list d dst @ ys) \<and>
     (\<forall>k. hashes (fold (\<lambda>jobId d. snd (hset (snd (lmove d src dst)) (q, jobId) (\<lambda>h. h\<lparr>STATUS := v\<rparr>))) ys d) k =
       (if k \<in> (\<lambda>jobId. (q, jobId)) ` set ys
        then Some ((case hashes d k of None \<Rightarrow> no_fields | Some h \<Rightarrow> h)\<lparr>STATUS := v\<rparr>)
        else hashes d k))"
proof (induction ys arbitrary: d)
  case Nil
  then show ?case by (auto simp add: fun_eq_iff)
next
  case (Cons y ys)
  let ?f = "\<lambda>jobId d. snd (hset (snd (lmove d src dst)) (q, jobId) (\<lambda>h. h\<lparr>STATUS := v\<rparr>))"
  let ?d1 = "snd (lmove d src dst)"
  let ?d2 = "snd (hset ?d1 (q, y) (\<lambda>h. h\<lparr>STATUS := v\<rparr>))"
  have y: "\<not> holds_list d (q, y)" "(q, y) \<noteq> src" "(q, y) \<noteq> dst" using Cons.prems(5) by simp_all
  have l1: "the_list ?d1 = (the_list d)(src := ys, dst := the_list d dst @ [y])"
    using lmove_Cons(2)[OF Cons.prems(4) Cons.prems(3)] Cons.prems(1) by simp
  have h1: "hashes ?d1 = hashes d" by (rule hashes_lmove)
  have f1: "holds_list ?d1 k = holds_list d k" if "k \<noteq> src" "k \<noteq> dst" for k
    by (rule holds_list_lmove[OF that])
  have ny: "\<not> holds_list ?d1 (q, y)" using f1[OF y(2,3)] y(1) by simp
  have l2: "the_list ?d2 = (the_list d)(src := ys, dst := the_list d dst @ [y])"
    by (simp only: list_hset l1)
  have h2: "hashes ?d2 =
      (hashes d)((q, y) := Some ((case hashes d (q, y) of None \<Rightarrow> no_fields | Some h \<Rightarrow> h)\<lparr>STATUS := v\<rparr>))"
    using ny by (simp add: hashes_hset h1)
  have f2: "holds_list ?d2 k = holds_list d k" if "k \<noteq> src" "k \<noteq> dst" for k
    using f1[OF that] by (simp add: holds_list_hset)
  have s2: "hashes ?d2 src = None" and t2: "hashes ?d2 dst = None"
    using y(2,3) Cons.prems(2,3) by (simp_all add: h2)
  have x2: "the_list ?d2 src = ys" using Cons.prems(1) by (simp add: l2)
  have a2: "\<forall>i \<in> set ys. \<not> holds_list ?d2 (q, i) \<and> (q, i) \<noteq> src \<and> (q, i) \<noteq> dst"
    using Cons.prems(5) f2 by simp
  note ih = Cons.IH[OF Cons.prems(1) s2 t2 x2 a2]
  have un: "fold ?f (y # ys) d = fold ?f ys ?d2" by simp
  have c1: "the_list (fold ?f ys ?d2) k =
       ((the_list d)(src := [], dst := the_list d dst @ y # ys)) k" for k
    unfolding ih[THEN conjunct1] l2 using Cons.prems(1) by simp
  have c2: "hashes (fold ?f ys ?d2) k =
       (if k \<in> (\<lambda>jobId. (q, jobId)) ` set (y # ys)
        then Some ((case hashes d k of None \<Rightarrow> no_fields | Some h \<Rightarrow> h)\<lparr>STATUS := v\<rparr>)
        else hashes d k)" for k
    unfolding ih[THEN conjunct2, rule_format] h2 by auto
  from c1 have c1': "the_list (fold ?f ys ?d2) = (the_list d)(src := [], dst := the_list d dst @ y # ys)"
    by (rule ext)
  show ?case unfolding un using c1' c2 by blast
qed

text \<open>
  In a store where the statuses have different values and no key of a list of the queue
  holds a hash, for two different statuses and a source list whose ids are not the value
  of a status and have no list on their key: \<open>moveJobsBetweenLists\<close> returns the ids of
  the source list, empties it, appends the ids to the destination list in the order they
  had, writes the destination status into the hashes of the ids and changes no other
  hash and no other list. The ids may include the empty one.
\<close>

theorem moveJobsBetweenLists_apart:
  "from \<noteq> to \<Longrightarrow> lists_apart hp d q \<Longrightarrow>
   list_all (id_apart hp d q) (id_lists hp d (q, from)) \<Longrightarrow>
     fst (moveJobsBetweenLists hp d q from to) = Inr (id_lists hp d (q, from)) \<and>
     id_lists hp (snd (moveJobsBetweenLists hp d q from to)) =
       (id_lists hp d)((q, from) := [],
                       (q, to) := id_lists hp d (q, to) @ id_lists hp d (q, from)) \<and>
     (\<forall>k. hashes (snd (moveJobsBetweenLists hp d q from to)) k =
        (if k \<in> (\<lambda>jobId. (q, jobId)) ` set (id_lists hp d (q, from))
         then Some ((case hashes d k of None \<Rightarrow> no_fields | Some h \<Rightarrow> h)\<lparr>STATUS := Some to\<rparr>)
         else hashes d k))"
proof -
  assume ne: "from \<noteq> to" and a: "lists_apart hp d q"
    and ap: "list_all (id_apart hp d q) (id_lists hp d (q, from))"
  let ?src = "(q, status_text hp from)"
  let ?dst = "(q, status_text hp to)"
  let ?xs = "the_list d ?src"
  have xs: "id_lists hp d (q, from) = ?xs" by (simp add: id_lists_def)
  have sd: "?src \<noteq> ?dst" using ne lists_apartD(2)[OF a, of "from" to] by simp
  have hs: "hashes d ?src = None" and hd: "hashes d ?dst = None"
    by (rule lists_apartD(1)[OF a])+
  have ids: "\<forall>i \<in> set ?xs. \<not> holds_list d (q, i) \<and> (q, i) \<noteq> ?src \<and> (q, i) \<noteq> ?dst"
  proof
    fix i assume "i \<in> set ?xs"
    with ap have b: "id_apart hp d q i" by (simp add: xs list_all_iff)
    from id_apartD[OF b] show "\<not> holds_list d (q, i) \<and> (q, i) \<noteq> ?src \<and> (q, i) \<noteq> ?dst"
      by simp
  qed
  note m = move_fold_apart[OF sd hs hd refl ids, of "Some to"]
  have g: "moveJobsBetweenLists hp d q from to =
      (Inr ?xs, fold (\<lambda>jobId d. snd (hset (snd (lmove d ?src ?dst)) (q, jobId)
                                      (\<lambda>h. h\<lparr>STATUS := Some to\<rparr>))) ?xs d)"
    using hs by (simp add: moveJobsBetweenLists_def lrange_def list_at_cases)
  have c1: "fst (moveJobsBetweenLists hp d q from to) = Inr (id_lists hp d (q, from))"
    by (simp add: g xs)
  have c2: "id_lists hp (snd (moveJobsBetweenLists hp d q from to)) =
       (id_lists hp d)((q, from) := [],
                       (q, to) := id_lists hp d (q, to) @ id_lists hp d (q, from))"
    using lists_apartD(2)[OF a]
    by (auto simp add: fun_eq_iff id_lists_def g m[THEN conjunct1])
  have c3: "hashes (snd (moveJobsBetweenLists hp d q from to)) k =
        (if k \<in> (\<lambda>jobId. (q, jobId)) ` set (id_lists hp d (q, from))
         then Some ((case hashes d k of None \<Rightarrow> no_fields | Some h \<Rightarrow> h)\<lparr>STATUS := Some to\<rparr>)
         else hashes d k)" for k
    using m[THEN conjunct2, rule_format, of k] by (simp add: g xs)
  show ?thesis using c1 c2 c3 by blast
qed

theorem moveJobsBetweenLists_apart_witness:
  "fst (moveJobsBetweenLists plain crashed_store ''q'' RUNNING STALLED) = Inr [''c'', ''b''] \<and>
   id_lists plain (snd (moveJobsBetweenLists plain crashed_store ''q'' RUNNING STALLED)) (''q'', STALLED) = [''c'', ''b''] \<and>
   id_lists plain (snd (moveJobsBetweenLists plain crashed_store ''q'' RUNNING STALLED)) (''q'', RUNNING) = []"
proof -
  have h: "RUNNING \<noteq> STALLED" "lists_apart plain crashed_store ''q''"
    "list_all (id_apart plain crashed_store ''q'') (id_lists plain crashed_store (''q'', RUNNING))"
    by code_simp+
  have j: "id_lists plain crashed_store (''q'', RUNNING) = [''c'', ''b'']"
    "id_lists plain crashed_store (''q'', STALLED) = []"
    by code_simp+
  from moveJobsBetweenLists_apart[OF h] show ?thesis
    by (simp add: j)
qed

section \<open>A routine that throws, for an id that is apart\<close>

text \<open>
  A job run in the process is the task \<open>Local\<close>; when its promise settles, the turn runs
  the chain and then \<open>onFinish\<close>. If the routine rejects, the chain calls \<open>failJob\<close> with
  the id of the job and the message of the error, and emits the job-fail event. For an id
  that is not the value of a status and whose key holds no list, in a store where the
  statuses have different values and no key of a list of the queue holds a hash, the
  hash of the id then has status \<open>FAILED\<close> and the message as the reason (the empty text
  when the error has no message), the first occurrence of the id is off the \<open>RUNNING\<close>
  list, the id is the head of the \<open>FAILED\<close> list, and no other hash and no other list
  has changed.
\<close>

theorem routine_error_fails_apart:
  "task_at k s = Some (Local q w batch job routine) \<Longrightarrow> routine job = Rejected message \<Longrightarrow>
   id' job = Some i \<Longrightarrow> lists_apart hp (store s) q \<Longrightarrow> id_apart hp (store s) q i \<Longrightarrow>
     step hp (Resume k) s = onFinish hp q w batch (local_chain hp q job routine (drop_task k s)) \<and>
     store (local_chain hp q job routine (drop_task k s)) = failJob hp (store s) q (Some i) message \<and>
     trace (local_chain hp q job routine (drop_task k s)) =
       trace s @ [Call_failJob q (Some i) message, Emit (JOB_FAIL q (Some i))] \<and>
     hashes (failJob hp (store s) q (Some i) message) =
       (hashes (store s))((q, i) :=
          Some ((case hashes (store s) (q, i) of None \<Rightarrow> no_fields | Some h \<Rightarrow> h)
                  \<lparr>STATUS := Some FAILED, FAILED_REASON := Some (arg_text message)\<rparr>)) \<and>
     id_lists hp (failJob hp (store s) q (Some i) message) =
       (id_lists hp (store s))((q, RUNNING) := remove1 i (id_lists hp (store s) (q, RUNNING)),
                               (q, FAILED) := i # id_lists hp (store s) (q, FAILED))"
proof -
  assume t: "task_at k s = Some (Local q w batch job routine)"
    and r: "routine job = Rejected message" and i: "id' job = Some i"
    and a: "lists_apart hp (store s) q" and b: "id_apart hp (store s) q i"
  let ?s1 = "local_chain hp q job routine (drop_task k s)"
  have turn: "step hp (Resume k) s = onFinish hp q w batch ?s1"
    using t by (simp add: step_def)
  have s1: "store ?s1 = failJob hp (store s) q (Some i) message"
    using r i by (simp add: local_chain_def onFailed_def store_log drop_task_def)
  have tr: "trace ?s1 = trace s @ [Call_failJob q (Some i) message, Emit (JOB_FAIL q (Some i))]"
    using r i by (simp add: local_chain_def onFailed_def log_def drop_task_def)
  have f: "failJob hp (store s) q (Some i) message =
      snd (lpush (snd (lrem (snd (hset (store s) (q, i)
             (\<lambda>h. h\<lparr>STATUS := Some FAILED, FAILED_REASON := Some (arg_text message)\<rparr>)))
             (q, status_text hp RUNNING) i)) (q, status_text hp FAILED) i)"
    by (simp add: failJob_def key_text_def arg_text_def)
  have ne: "FAILED \<noteq> RUNNING" by simp
  note sf = settle_facts(1,2)[OF a b ne,
      of "\<lambda>h. h\<lparr>STATUS := Some FAILED, FAILED_REASON := Some (arg_text message)\<rparr>"]
  show ?thesis
    unfolding f[symmetric] using turn s1 tr sf[folded f] by simp
qed

theorem routine_error_fails_apart_witness:
  "hashes (store (local_chain plain ''q'' \<lparr>id' = Some ''a'', data' = ''x''\<rparr>
                    (\<lambda>job. Rejected (Some ''boom'')) (drop_task 0 throwing))) (''q'', ''a'') =
     Some \<lparr>JOB_ID = Some ''a'', DATA = Some ''x'', STATUS = Some FAILED,
           FAILED_REASON = Some ''boom''\<rparr> \<and>
   id_lists plain (store (local_chain plain ''q'' \<lparr>id' = Some ''a'', data' = ''x''\<rparr>
                    (\<lambda>job. Rejected (Some ''boom'')) (drop_task 0 throwing))) (''q'', FAILED) = [''a''] \<and>
   id_lists plain (store (local_chain plain ''q'' \<lparr>id' = Some ''a'', data' = ''x''\<rparr>
                    (\<lambda>job. Rejected (Some ''boom'')) (drop_task 0 throwing))) (''q'', RUNNING) = []"
proof -
  have h: "(\<lambda>job. Rejected (Some ''boom'')) \<lparr>id' = Some ''a'', data' = ''x''\<rparr> = Rejected (Some ''boom'')"
    "id' \<lparr>id' = Some ''a'', data' = ''x''\<rparr> = Some ''a''"
    by simp_all
  have t: "task_at 0 throwing = Some (Local ''q'' ''w1'' 0 \<lparr>id' = Some ''a'', data' = ''x''\<rparr>
                    (\<lambda>job. Rejected (Some ''boom'')))"
    by (simp add: task_at_def throwing_def)
  have a: "lists_apart plain (store throwing) ''q''" "id_apart plain (store throwing) ''q'' ''a''"
    by code_simp+
  have j: "hashes (store throwing) (''q'', ''a'') =
      Some \<lparr>JOB_ID = Some ''a'', DATA = Some ''x'', STATUS = Some RUNNING, FAILED_REASON = None\<rparr>"
    "id_lists plain (store throwing) (''q'', RUNNING) = [''a'']"
    "id_lists plain (store throwing) (''q'', FAILED) = []"
    by code_simp+
  from routine_error_fails_apart[OF t h a] show ?thesis
    by (simp add: j arg_text_def)
qed

section \<open>The first worker of a queue\<close>
























section \<open>The fetch limit\<close>

text \<open>
  Claim C10, with the empty string as the id at the head of the \<open>STALLED\<close> list. The
  handler calls \<open>getJobs\<close> without a limit, so each call issues one \<^verbatim>\<open>LMOVE\<close>, and it
  pushes what the last call returned: at most one job. But the first call moves the
  empty id and returns nothing, the handler takes the list for drained and fetches from
  \<open>PENDING\<close>: one pool request has moved two ids onto the \<open>RUNNING\<close> list.
\<close>

theorem request_moves_two:
  "id_lists plain (store recovering_empty_id) (''q'', STALLED) = [[]] \<and>
   id_lists plain (store recovering_empty_id) (''q'', PENDING) = [''a''] \<and>
   id_lists plain (store recovering_empty_id) (''q'', RUNNING) = [] \<and>
   fst (onJobsRequest_fetch plain ''q'' ''w1'' recovering_empty_id) =
     Some [\<lparr>id' = Some ''a'', data' = ''x''\<rparr>] \<and>
   id_lists plain (store (snd (onJobsRequest_fetch plain ''q'' ''w1'' recovering_empty_id))) (''q'', RUNNING) =
     [[], ''a''] \<and>
   id_lists plain (store (onJobsRequest plain ''q'' ''w1'' recovering_empty_id)) (''q'', RUNNING) =
     [[], ''a''] \<and>
   recovered ''q'' (onJobsRequest plain ''q'' ''w1'' recovering_empty_id)"
  by code_simp

section \<open>Idle and busy\<close>

text \<open>
  Claim C8, on the turns \<open>overlapping\<close>. Each call of \<open>onJobsProcess\<close> has a counter of
  its own, and \<open>onFinish\<close> marks the worker idle when the counter of its batch is zero.
  After the last but one turn the worker is busy with two jobs running in the process,
  one from each of two pool requests; after the last turn the first of them has
  settled, the worker is marked idle and is the queue's idle worker, and the other job
  is still running in the process.
\<close>

theorem idle_while_dispatching:
  "worker_status ''q'' ''w1'' (run plain (butlast overlapping) (new_engine no_keys)) = Some BUSY \<and>
   map (\<lambda>t. case t of Local q w batch job routine \<Rightarrow> (batch, id' job) | Request q w fetched \<Rightarrow> (0, None)
                | Sandboxed q w batch job \<Rightarrow> (0, None))
     (tasks (run plain (butlast overlapping) (new_engine no_keys))) = [(1, Some ''j2''), (2, Some ''j3'')] \<and>
   worker_status ''q'' ''w1'' (run plain overlapping (new_engine no_keys)) = Some IDLE \<and>
   worker_jobs ''q'' ''w1'' (run plain overlapping (new_engine no_keys)) = [] \<and>
   in_local_dispatch ''q'' ''w1'' (run plain overlapping (new_engine no_keys)) \<and>
   map_option idleWorkerId (queues (run plain overlapping (new_engine no_keys)) ''q'') = Some ''w1''"
  by code_simp

section \<open>One job from enqueue to its end\<close>

text \<open>
  A job enqueued before the first worker is registered is fetched by the pool request of
  the registration and run. With a routine that returns it ends with status \<open>COMPLETED\<close>
  and no failure reason, on the \<open>COMPLETED\<close> list and off the others, and the worker is
  idle again. With a routine that throws \<open>boom\<close> it ends with status \<open>FAILED\<close> and the
  reason \<open>boom\<close>, on the \<open>FAILED\<close> list.
\<close>

theorem one_job_completes_or_fails:
  "hashes (store (run plain (one_job ''a'' (\<lambda>job. Resolved)) (new_engine no_keys))) (''q'', ''a'') =
     Some \<lparr>JOB_ID = Some ''a'', DATA = Some ''x'', STATUS = Some COMPLETED, FAILED_REASON = None\<rparr> \<and>
   map (\<lambda>st. id_lists plain (store (run plain (one_job ''a'' (\<lambda>job. Resolved)) (new_engine no_keys))) (''q'', st))
     [PENDING, RUNNING, STALLED, COMPLETED, FAILED] = [[], [], [], [''a''], []] \<and>
   worker_status ''q'' ''w1'' (run plain (one_job ''a'' (\<lambda>job. Resolved)) (new_engine no_keys)) = Some IDLE \<and>
   \<not> in_local_dispatch ''q'' ''w1'' (run plain (one_job ''a'' (\<lambda>job. Resolved)) (new_engine no_keys)) \<and>
   hashes (store (run plain (one_job ''a'' (\<lambda>job. Rejected (Some ''boom''))) (new_engine no_keys))) (''q'', ''a'') =
     Some \<lparr>JOB_ID = Some ''a'', DATA = Some ''x'', STATUS = Some FAILED, FAILED_REASON = Some ''boom''\<rparr> \<and>
   map (\<lambda>st. id_lists plain (store (run plain (one_job ''a'' (\<lambda>job. Rejected (Some ''boom''))) (new_engine no_keys))) (''q'', st))
     [PENDING, RUNNING, STALLED, COMPLETED, FAILED] = [[], [], [], [], [''a'']]"
  by code_simp

text \<open>
  The idle worker of a queue is recorded by \<open>onJobsProcess\<close> and \<open>onFinish\<close> only. When
  the first pool request of a new worker fetches nothing, the handler returns before
  \<open>onJobsProcess\<close>, the queue records no idle worker although the worker is idle, and
  an enqueue after that emits no pool request: the job stays pending with no task left
  to fetch it.
\<close>

theorem enqueue_after_idle_registration:
  "worker_status ''q'' ''w1'' (run plain (butlast worker_first) (new_engine no_keys)) = Some IDLE \<and>
   map_option idleWorkerId (queues (run plain (butlast worker_first) (new_engine no_keys)) ''q'') = Some [] \<and>
   trace (run plain worker_first (new_engine no_keys)) =
     trace (run plain (butlast worker_first) (new_engine no_keys)) @
       [Call_addJob ''q'' ''a'', Emit (JOB_ADD ''q'')] \<and>
   id_lists plain (store (run plain worker_first (new_engine no_keys))) (''q'', PENDING) = [''a''] \<and>
   length (tasks (run plain worker_first (new_engine no_keys))) = 0"
  by code_simp

text \<open>
  A job enqueued under the id that is the value of \<open>RUNNING\<close>, before the first worker:
  its hash is on the key of the \<open>RUNNING\<close> list, so the read of the move throws and
  \<open>addWorker\<close> rejects after it has put the worker in the registry. The next worker is
  not a first one. No listener of the queue is ever registered, and the jobs enqueued
  stay pending with no task to fetch them.
\<close>

theorem running_id_stops_startup:
  "status_text plain RUNNING = ''running'' \<and>
   fst (addWorker plain ''q'' (Some (\<lambda>job. Resolved)) local_config ''w1''
          (run plain [Start \<lparr>name = ''q'', db = Some 0\<rparr>, AddJob ''q'' ''running'' ''x'']
             (new_engine no_keys))) = Inl WRONGTYPE \<and>
   trace (run plain
            [Start \<lparr>name = ''q'', db = Some 0\<rparr>, AddJob ''q'' ''running'' ''x'',
             AddWorker ''q'' (Some (\<lambda>job. Resolved)) local_config ''w1'',
             AddWorker ''q'' (Some (\<lambda>job. Resolved)) local_config ''w2'',
             AddJob ''q'' ''a'' ''y'']
            (new_engine no_keys)) =
     [Emit (QUEUE_ADD ''q''), Call_addJob ''q'' ''running'', Emit (JOB_ADD ''q''),
      Call_moveJobsBetweenLists ''q'' RUNNING STALLED, Emit (WORKER_ADD ''q'' ''w2''),
      Call_addJob ''q'' ''a'', Emit (JOB_ADD ''q'')] \<and>
   listeners (run plain
            [Start \<lparr>name = ''q'', db = Some 0\<rparr>, AddJob ''q'' ''running'' ''x'',
             AddWorker ''q'' (Some (\<lambda>job. Resolved)) local_config ''w1'',
             AddWorker ''q'' (Some (\<lambda>job. Resolved)) local_config ''w2'',
             AddJob ''q'' ''a'' ''y'']
            (new_engine no_keys)) ''q'' = 0 \<and>
   length (tasks (run plain
            [Start \<lparr>name = ''q'', db = Some 0\<rparr>, AddJob ''q'' ''running'' ''x'',
             AddWorker ''q'' (Some (\<lambda>job. Resolved)) local_config ''w1'',
             AddWorker ''q'' (Some (\<lambda>job. Resolved)) local_config ''w2'',
             AddJob ''q'' ''a'' ''y'']
            (new_engine no_keys))) = 0 \<and>
   id_lists plain (store (run plain
            [Start \<lparr>name = ''q'', db = Some 0\<rparr>, AddJob ''q'' ''running'' ''x'',
             AddWorker ''q'' (Some (\<lambda>job. Resolved)) local_config ''w1'',
             AddWorker ''q'' (Some (\<lambda>job. Resolved)) local_config ''w2'',
             AddJob ''q'' ''a'' ''y'']
            (new_engine no_keys))) (''q'', PENDING) = [''a'', ''running'']"
  by code_simp

end
